theory Spec2Isabelle
  imports Complex_Main "HOL-Library.AList" "HOL-Library.Char_ord" "HOL-Library.List_Lexorder"
    "HOL-Library.Multiset"
begin

section \<open>The n-gram inverted index (src/src/ngram.indice.ts)\<close>

subsection \<open>Values\<close>

text \<open>
  Record keys (the type parameter \<open>T\<close> of \<open>NgramIndice<T>\<close>) are JavaScript numbers or
  strings; the test suite uses the array position of a record, starting at 0. JavaScript's
  truthiness of a key matters in \<open>cursorAll\<close>.
\<close>

datatype key = NumKey int | StrKey string

fun truthy :: "key \<Rightarrow> bool" where
  "truthy (NumKey n) = (n \<noteq> 0)"
| "truthy (StrKey s) = (s \<noteq> [])"

text \<open>
  Errors as values: \<open>NotLoaded\<close> is \<open>Error("option load doesn't implemented")\<close>,
  \<open>Rejected\<close> a rejection of the supplied load function, \<open>TypeError\<close> the
  runtime's error on calling a method that the receiver does not have.
\<close>

datatype error = NotLoaded | Rejected string | TypeError

text \<open>
  A \<open>Map\<close> is an association list in insertion order with distinct keys: \<open>get\<close> is
  \<^const>\<open>map_of\<close>, \<open>set\<close> is \<^const>\<open>AList.update\<close> (an existing key keeps its
  place, a new one goes last), \<open>delete\<close> is \<^const>\<open>AList.delete\<close>.
\<close>

type_synonym postings = "(string \<times> key list) list"
type_synonym weights = "(key \<times> nat) list"

text \<open>
  The load function of the options resolves with \<open>{data}\<close> or rejects. It is a closure
  of the caller's: its outcome may differ from call to call, so the model gives it the
  number of earlier invocations. It is called with the options object; what a load
  function of the caller's might do to that object is not part of the model.
\<close>

type_synonym loader = "nat \<Rightarrow> error + postings"

record IOptions =
  id_opt :: string
  gramLen :: nat
  actuationLimit :: rat
  toLowcase :: bool
  actuationLimitAuto :: bool
  preTokenizr :: "(string \<Rightarrow> string) option"
  postTokenizr :: "(string \<Rightarrow> string list \<Rightarrow> string list) option"
  isLoaded :: bool
  load :: "loader option"

text \<open>\<open>Partial<IOptions>\<close>: every field may be absent.\<close>

record partial_options =
  p_id :: "string option"
  p_gramLen :: "nat option"
  p_actuationLimit :: "rat option"
  p_toLowcase :: "bool option"
  p_actuationLimitAuto :: "bool option"
  p_preTokenizr :: "(string \<Rightarrow> string) option"
  p_postTokenizr :: "(string \<Rightarrow> string list \<Rightarrow> string list) option"
  p_isLoaded :: "bool option"
  p_load :: "loader option"

text \<open>
  The values of type \<open>any\<close> that reach \<open>deserialize\<close> and, through it, the field
  \<open>indices\<close>: nothing, an options object, a \<open>Map\<close>, or an array of entries.
\<close>

datatype jsany = Undefined | OptionsObj partial_options | MapObj postings | ArrayObj postings

text \<open>
  The index. \<open>loadCalls\<close> is not a field of the class: it counts the invocations of the
  load function, so that "invoked once" can be stated.
\<close>

record NgramIndice =
  nGram_fn :: "string \<Rightarrow> string list"
  indices :: jsany
  options :: IOptions
  loadCalls :: nat

datatype text_value = One string | Many "string list"

subsection \<open>Tokenizer\<close>

text \<open>
  Modelled from the spec: the package \<open>n-gram\<close> is not part of the repository. Section 4.1:
  for each word, all contiguous substrings of length \<open>gramLen\<close>; a word shorter than
  \<open>gramLen\<close> gives no token.
\<close>

definition nGram :: "nat \<Rightarrow> string \<Rightarrow> string list" where
  "nGram n w = map (\<lambda>i. take n (drop i w)) [0..<length w + 1 - n]"

text \<open>\<open>String.prototype.toLowerCase\<close>, on the ASCII letters.\<close>

definition lower_char :: "char \<Rightarrow> char" where
  "lower_char c = (if CHR ''A'' \<le> c \<and> c \<le> CHR ''Z'' then char_of (of_char c + (32::nat)) else c)"

definition toLowerCase :: "string \<Rightarrow> string" where
  "toLowerCase v = map lower_char v"

text \<open>\<open>v.split(" ")\<close>: the empty string gives one empty word.\<close>

fun split_sp :: "string \<Rightarrow> string list" where
  "split_sp [] = [[]]"
| "split_sp (c # cs) =
     (if c = CHR '' '' then [] # split_sp cs
      else (case split_sp cs of [] \<Rightarrow> [[c]] | w # ws \<Rightarrow> (c # w) # ws))"

definition tokenizr :: "NgramIndice \<Rightarrow> string \<Rightarrow> string list" where
  "tokenizr idx v0 =
     (let v = (case preTokenizr (options idx) of Some f \<Rightarrow> f v0 | None \<Rightarrow> v0);
          v = (if toLowcase (options idx) then toLowerCase v else v);
          tokens = concat (map (nGram_fn idx) (split_sp v))
      in case postTokenizr (options idx) of Some g \<Rightarrow> g v0 tokens | None \<Rightarrow> tokens)"

text \<open>\<open>Array.isArray(value) ? value.flatMap(v => this.tokenizr(v)) : this.tokenizr(value)\<close>\<close>

definition tokens_of :: "NgramIndice \<Rightarrow> text_value \<Rightarrow> string list" where
  "tokens_of idx v = (case v of Many vs \<Rightarrow> concat (map (tokenizr idx) vs) | One s \<Rightarrow> tokenizr idx s)"

subsection \<open>Construction\<close>

text \<open>The template literal of a counter: its decimal digits.\<close>

function string_of_nat :: "nat \<Rightarrow> string" where
  "string_of_nat n =
     (if n < 10 then [char_of (48 + n)] else string_of_nat (n div 10) @ [char_of (48 + n mod 10)])"
  by pat_completeness auto
termination
  by (relation "measure (\<lambda>n. n)") auto

text \<open>
  The constructor takes the module's \<open>id_counter\<close> and returns it, advanced when the
  default identifier is used. The hooks of the argument are not copied into the options.
\<close>

definition new_NgramIndice :: "partial_options \<Rightarrow> nat \<Rightarrow> NgramIndice \<times> nat" where
  "new_NgramIndice p id_counter =
     (let (i, c) = (case p_id p of Some s \<Rightarrow> (s, id_counter)
                    | None \<Rightarrow> (string_of_nat id_counter, id_counter + 1));
          g = (case p_gramLen p of Some g \<Rightarrow> g | None \<Rightarrow> 3)
      in (\<lparr> nGram_fn = nGram g,
            indices = MapObj [],
            options = \<lparr> id_opt = i,
                        gramLen = g,
                        actuationLimit = (case p_actuationLimit p of Some a \<Rightarrow> a | None \<Rightarrow> 2),
                        toLowcase = (case p_toLowcase p of Some b \<Rightarrow> b | None \<Rightarrow> True),
                        actuationLimitAuto = (case p_actuationLimitAuto p of Some b \<Rightarrow> b | None \<Rightarrow> False),
                        preTokenizr = None,
                        postTokenizr = None,
                        isLoaded = (case p_isLoaded p of Some b \<Rightarrow> b | None \<Rightarrow> True),
                        load = p_load p \<rparr>,
            loadCalls = 0 \<rparr>, c))"

text \<open>An object with none of the option fields: \<open>{}\<close>, and what a Map or an array offers.\<close>

definition no_options :: partial_options where
  "no_options = \<lparr> p_id = None, p_gramLen = None, p_actuationLimit = None, p_toLowcase = None,
                  p_actuationLimitAuto = None, p_preTokenizr = None, p_postTokenizr = None,
                  p_isLoaded = None, p_load = None \<rparr>"

definition as_options :: "jsany \<Rightarrow> partial_options" where
  "as_options v = (case v of OptionsObj p \<Rightarrow> p | _ \<Rightarrow> no_options)"

text \<open>
  \<open>static deserialize(data, options)\<close>: without options the first argument is the
  options; data that is not falsy becomes the field \<open>indices\<close> as it is.
\<close>

definition deserialize :: "jsany \<Rightarrow> jsany \<Rightarrow> nat \<Rightarrow> NgramIndice \<times> nat" where
  "deserialize data0 options0 id_counter =
     (let (data, opts) = (case options0 of Undefined \<Rightarrow> (Undefined, data0) | _ \<Rightarrow> (data0, options0));
          (index, c) = new_NgramIndice (as_options opts) id_counter
      in (case data of Undefined \<Rightarrow> index | _ \<Rightarrow> index\<lparr>indices := data\<rparr>, c))"

subsection \<open>Adding, loading, querying\<close>

text \<open>\<open>new Map(data)\<close>: the entries are set one by one.\<close>

definition new_Map :: "('a \<times> 'b) list \<Rightarrow> ('a \<times> 'b) list" where
  "new_Map entries = foldl (\<lambda>m (k, v). AList.update k v m) [] entries"

text \<open>
  The loop of \<open>add\<close> on a Map: \<open>index = this.indices.get(token) || []\<close>,
  \<open>index.push(key)\<close>, \<open>this.indices.set(token, index)\<close>.
\<close>

fun add_tokens :: "key \<Rightarrow> string list \<Rightarrow> postings \<Rightarrow> postings" where
  "add_tokens k [] m = m"
| "add_tokens k (t # ts) m =
     add_tokens k ts (AList.update t ((case map_of m t of Some l \<Rightarrow> l | None \<Rightarrow> []) @ [k]) m)"

text \<open>
  A field \<open>indices\<close> that is not a Map has no method \<open>get\<close>: the first token raises.
\<close>

definition add :: "key \<Rightarrow> text_value \<Rightarrow> NgramIndice \<Rightarrow> error + NgramIndice" where
  "add k v idx =
     (let tokens = tokens_of idx v
      in case indices idx of
           MapObj m \<Rightarrow> Inr (idx\<lparr>indices := MapObj (add_tokens k tokens m)\<rparr>)
         | _ \<Rightarrow> if tokens = [] then Inr idx else Inl TypeError)"

text \<open>
  \<open>private async load()\<close>. A rejection of the load function leaves the index as it was.
\<close>

definition load_indice :: "NgramIndice \<Rightarrow> (error + unit) \<times> NgramIndice" where
  "load_indice idx =
     (if isLoaded (options idx) then (Inr (), idx)
      else case load (options idx) of
             Some f \<Rightarrow>
               (case f (loadCalls idx) of
                  Inl e \<Rightarrow> (Inl e, idx\<lparr>loadCalls := loadCalls idx + 1\<rparr>)
                | Inr data \<Rightarrow>
                    (Inr (), idx\<lparr>indices := MapObj (new_Map data),
                                 options := (options idx)\<lparr>isLoaded := True\<rparr>,
                                 loadCalls := loadCalls idx + 1\<rparr>))
           | None \<Rightarrow> (Inl NotLoaded, idx))"

definition getIndices :: "NgramIndice \<Rightarrow> string \<Rightarrow> string \<Rightarrow> error + key list option" where
  "getIndices idx token operator =
     (case indices idx of MapObj m \<Rightarrow> Inr (map_of m token) | _ \<Rightarrow> Inl TypeError)"

text \<open>\<open>indices.forEach((id) => countResults.set(id, (countResults.get(id) || 0) + 1))\<close>\<close>

fun count_ids :: "key list \<Rightarrow> weights \<Rightarrow> weights" where
  "count_ids [] countResults = countResults"
| "count_ids (i # is) countResults =
     count_ids is (AList.update i ((case map_of countResults i of Some c \<Rightarrow> c | None \<Rightarrow> 0) + 1) countResults)"

text \<open>The loop of \<open>preFilter\<close> over the tokens; it stops at the first error.\<close>

fun count_tokens :: "NgramIndice \<Rightarrow> string \<Rightarrow> string list \<Rightarrow> weights \<Rightarrow> error + weights" where
  "count_tokens idx operator [] countResults = Inr countResults"
| "count_tokens idx operator (token # ts) countResults =
     (case getIndices idx token operator of
        Inl e \<Rightarrow> Inl e
      | Inr None \<Rightarrow> count_tokens idx operator ts countResults
      | Inr (Some ids) \<Rightarrow> count_tokens idx operator ts (count_ids ids countResults))"

definition preFilter :: "string list \<Rightarrow> string \<Rightarrow> NgramIndice \<Rightarrow> (error + weights) \<times> NgramIndice" where
  "preFilter tokens operator idx =
     (case load_indice idx of
        (Inl e, idx') \<Rightarrow> (Inl e, idx')
      | (Inr _, idx') \<Rightarrow> (count_tokens idx' operator tokens [], idx'))"

definition AUTO_LIMIT_FIND_PERCENT :: rat where
  "AUTO_LIMIT_FIND_PERCENT = 40"

definition getLimit :: "bool \<Rightarrow> nat \<Rightarrow> rat \<Rightarrow> rat" where
  "getLimit autoLimit tokensLength limit =
     (if autoLimit then of_nat tokensLength * AUTO_LIMIT_FIND_PERCENT / 100 else limit)"

definition postFilter :: "NgramIndice \<Rightarrow> weights \<Rightarrow> string list \<Rightarrow> key list" where
  "postFilter idx countResults tokens =
     (let l = getLimit (actuationLimitAuto (options idx)) (length tokens) (actuationLimit (options idx))
      in map fst (filter (\<lambda>(_, count). l \<le> of_nat count) countResults))"

text \<open>\<open>find(value?, {operator})\<close>: no value means no token.\<close>

definition ngram_find :: "text_value option \<Rightarrow> string \<Rightarrow> NgramIndice \<Rightarrow> (error + key list) \<times> NgramIndice" where
  "ngram_find v operator idx =
     (let tokens = (case v of None \<Rightarrow> [] | Some x \<Rightarrow> tokens_of idx x)
      in case preFilter tokens operator idx of
           (Inl e, idx') \<Rightarrow> (Inl e, idx')
         | (Inr preResult, idx') \<Rightarrow> (Inr (postFilter idx' preResult tokens), idx'))"

subsection \<open>The segments of a query\<close>

text \<open>
  \<open>load\<close> and \<open>preFilter\<close> are async functions: each runs without interruption up to
  its \<open>await\<close>, and other calls on the same index may run before it goes on. \<open>load\<close>
  has two segments. The first tests \<open>isLoaded\<close> and, for an index that is not loaded,
  invokes the load function and awaits its promise (\<open>Awaiting\<close>, with the outcome that the
  promise will settle with). The second, once the promise has settled, stores the Map and
  sets \<open>isLoaded\<close>, or raises the rejection. \<open>preFilter\<close> awaits \<open>load\<close> and then
  counts the tokens on the index as it then is.
\<close>

datatype suspended = Returned "error + unit" | Awaiting "error + postings"

definition load_begin :: "NgramIndice \<Rightarrow> suspended \<times> NgramIndice" where
  "load_begin idx =
     (if isLoaded (options idx) then (Returned (Inr ()), idx)
      else case load (options idx) of
             Some f \<Rightarrow> (Awaiting (f (loadCalls idx)), idx\<lparr>loadCalls := loadCalls idx + 1\<rparr>)
           | None \<Rightarrow> (Returned (Inl NotLoaded), idx))"

definition load_resume :: "suspended \<Rightarrow> NgramIndice \<Rightarrow> (error + unit) \<times> NgramIndice" where
  "load_resume s idx =
     (case s of
        Returned r \<Rightarrow> (r, idx)
      | Awaiting (Inl e) \<Rightarrow> (Inl e, idx)
      | Awaiting (Inr data) \<Rightarrow>
          (Inr (), idx\<lparr>indices := MapObj (new_Map data), options := (options idx)\<lparr>isLoaded := True\<rparr>\<rparr>))"

definition preFilter_count :: "string list \<Rightarrow> string \<Rightarrow> error + unit \<Rightarrow> NgramIndice \<Rightarrow> error + weights" where
  "preFilter_count tokens operator r idx =
     (case r of Inl e \<Rightarrow> Inl e | Inr _ \<Rightarrow> count_tokens idx operator tokens [])"

text \<open>
  The functions \<open>load_indice\<close> and \<open>preFilter\<close> above are these segments run one after
  the other, with no other call in between.
\<close>

lemma load_indice_segments:
  "load_indice idx = (case load_begin idx of (s, idx') \<Rightarrow> load_resume s idx')"
  by (simp add: load_indice_def load_begin_def load_resume_def split: option.splits sum.splits)

lemma preFilter_segments:
  "preFilter tokens operator idx =
     (case load_begin idx of (s, i1) \<Rightarrow>
      case load_resume s i1 of (r, i2) \<Rightarrow> (preFilter_count tokens operator r i2, i2))"
  by (simp add: preFilter_def load_indice_segments preFilter_count_def split: prod.splits sum.splits)

subsection \<open>Serialization\<close>

text \<open>\<open>const { load, ...options } = this.options\<close>\<close>

definition serializeOptions :: "NgramIndice \<Rightarrow> partial_options" where
  "serializeOptions idx =
     (let opts = options idx
      in \<lparr> p_id = Some (id_opt opts), p_gramLen = Some (gramLen opts),
           p_actuationLimit = Some (actuationLimit opts), p_toLowcase = Some (toLowcase opts),
           p_actuationLimitAuto = Some (actuationLimitAuto opts),
           p_preTokenizr = preTokenizr opts, p_postTokenizr = postTokenizr opts,
           p_isLoaded = Some (isLoaded opts), p_load = None \<rparr>)"

text \<open>
  \<open>[...this.indices]\<close>: the entries of a Map, or the elements of an array, as an array;
  anything else is not iterable.
\<close>

definition serializeData :: "NgramIndice \<Rightarrow> error + postings" where
  "serializeData idx =
     (case indices idx of MapObj m \<Rightarrow> Inr m | ArrayObj a \<Rightarrow> Inr a | _ \<Rightarrow> Inl TypeError)"

definition serialize :: "NgramIndice \<Rightarrow> error + (postings \<times> partial_options)" where
  "serialize idx =
     (case serializeData idx of Inl e \<Rightarrow> Inl e | Inr d \<Rightarrow> Inr (d, serializeOptions idx))"

subsection \<open>Sharding\<close>

text \<open>The getter \<open>keys\<close> of a Map: its keys, sorted by \<open><\<close> on strings.\<close>

definition keys :: "postings \<Rightarrow> string list" where
  "keys m = sort (map fst m)"

definition CHUNK_SIZE_DEFAULT :: nat where
  "CHUNK_SIZE_DEFAULT = 100"

text \<open>\<open>const { id, ...options } = this.options\<close>\<close>

definition options_without_id :: "IOptions \<Rightarrow> partial_options" where
  "options_without_id opts =
     \<lparr> p_id = None, p_gramLen = Some (gramLen opts),
       p_actuationLimit = Some (actuationLimit opts), p_toLowcase = Some (toLowcase opts),
       p_actuationLimitAuto = Some (actuationLimitAuto opts),
       p_preTokenizr = preTokenizr opts, p_postTokenizr = postTokenizr opts,
       p_isLoaded = Some (isLoaded opts), p_load = load opts \<rparr>"

text \<open>
  The inner loop of \<open>spread\<close>, on the copy \<open>value\<close> of one posting list:
  \<open>while (value.length) { map.set(key, value.splice(0, chunkSize - size)); result.push(...);
  size = 0; map = new Map(); }\<close>. The state is \<open>(size, map, result, id_counter)\<close>. The loop
  need not end (a slice of length 0 removes nothing), so not returning is \<open>None\<close>.
\<close>

partial_function (option) split_value ::
  "nat \<Rightarrow> partial_options \<Rightarrow> string \<Rightarrow> key list \<Rightarrow> nat \<times> postings \<times> NgramIndice list \<times> nat
    \<Rightarrow> (nat \<times> postings \<times> NgramIndice list \<times> nat) option"
where
  "split_value chunkSize opts k v st =
     (if v = [] then Some st
      else (case st of (sz, m, result, c) \<Rightarrow>
              (case deserialize (MapObj (AList.update k (take (chunkSize - sz) v) m)) (OptionsObj opts) c of
                 (shard, c') \<Rightarrow>
                   split_value chunkSize opts k (drop (chunkSize - sz) v) (0, [], result @ [shard], c'))))"

declare split_value.simps [code]

text \<open>
  \<open>this.keys.forEach((key) => ...)\<close>. \<open>[...this.indices.get(key)!]\<close> raises when the key
  has no entry.
\<close>

fun spread_keys ::
  "nat \<Rightarrow> partial_options \<Rightarrow> postings \<Rightarrow> string list \<Rightarrow> nat \<times> postings \<times> NgramIndice list \<times> nat
    \<Rightarrow> (error + nat \<times> postings \<times> NgramIndice list \<times> nat) option"
where
  "spread_keys chunkSize opts ind [] st = Some (Inr st)"
| "spread_keys chunkSize opts ind (k # ks) (sz, m, result, c) =
     (case map_of ind k of
        None \<Rightarrow> Some (Inl TypeError)
      | Some v \<Rightarrow>
          if sz + length v \<le> chunkSize
          then spread_keys chunkSize opts ind ks (sz + length v, AList.update k v m, result, c)
          else (case split_value chunkSize opts k v (sz, m, result, c) of
                  None \<Rightarrow> None
                | Some st' \<Rightarrow> spread_keys chunkSize opts ind ks st'))"

text \<open>
  \<open>spread(chunkSize)\<close>, with the module's \<open>id_counter\<close>: every shard takes a fresh
  identifier from it. An array has its positions as keys and no method \<open>get\<close>.
\<close>

definition spread :: "nat \<Rightarrow> NgramIndice \<Rightarrow> nat \<Rightarrow> (error + NgramIndice list \<times> nat) option" where
  "spread chunkSize idx id_counter =
     (let opts = options_without_id (options idx)
      in case indices idx of
           MapObj ind \<Rightarrow>
             (case spread_keys chunkSize opts ind (keys ind) (0, [], [], id_counter) of
                None \<Rightarrow> None
              | Some (Inl e) \<Rightarrow> Some (Inl e)
              | Some (Inr (sz, m, result, c)) \<Rightarrow>
                  if sz \<noteq> 0
                  then (case deserialize (MapObj m) (OptionsObj opts) c of
                          (shard, c') \<Rightarrow> Some (Inr (result @ [shard], c')))
                  else Some (Inr (result, c)))
         | ArrayObj a \<Rightarrow> Some (if a = [] then Inr ([], id_counter) else Inl TypeError)
         | _ \<Rightarrow> Some (Inl TypeError))"

subsection \<open>Querying shards\<close>

text \<open>
  \<open>indices.map((indice) => indice.preFilter(tokens, { operator }))\<close>: every shard is asked,
  in the order of the array; a shard may load itself.
\<close>

fun preFilter_all :: "string list \<Rightarrow> string \<Rightarrow> NgramIndice list \<Rightarrow> (error + weights) list \<times> NgramIndice list" where
  "preFilter_all tokens operator [] = ([], [])"
| "preFilter_all tokens operator (s # ss) =
     (case preFilter tokens operator s of
        (r, s') \<Rightarrow> (case preFilter_all tokens operator ss of (rs, ss') \<Rightarrow> (r # rs, s' # ss')))"

text \<open>
  \<open>weights.forEach((value, key) => sum.set(key, (sum.get(key) || 0) + value))\<close>, the way
  both \<open>findAll\<close> and \<open>cursorAll\<close> add a shard's weights to the running total.
\<close>

definition combine :: "weights \<Rightarrow> weights \<Rightarrow> weights" where
  "combine sum0 ws =
     foldl (\<lambda>acc (k, v). AList.update k ((case map_of acc k of Some c \<Rightarrow> c | None \<Rightarrow> 0) + v) acc) sum0 ws"

text \<open>\<open>Promise.all\<close>: all the results, or a rejection.\<close>

fun all_resolved :: "(error + 'a) list \<Rightarrow> error + 'a list" where
  "all_resolved [] = Inr []"
| "all_resolved (Inl e # rs) = Inl e"
| "all_resolved (Inr x # rs) = (case all_resolved rs of Inl e \<Rightarrow> Inl e | Inr xs \<Rightarrow> Inr (x # xs))"

definition findAll ::
  "NgramIndice \<Rightarrow> NgramIndice list \<Rightarrow> text_value \<Rightarrow> string \<Rightarrow> (error + key list) \<times> NgramIndice list" where
  "findAll self shards v operator =
     (let tokens = tokens_of self v
      in case preFilter_all tokens operator shards of
           (rs, shards') \<Rightarrow>
             (case all_resolved rs of
                Inl e \<Rightarrow> (Inl e, shards')
              | Inr list \<Rightarrow> (Inr (postFilter self (foldl combine [] list) tokens), shards')))"

text \<open>
  \<open>cursorAll\<close>: the state of the iterator is the shard results that \<open>Promise.race\<close> has
  not delivered yet, in the order in which it will deliver them, and the running
  \<open>combineWeights\<close>. One call of \<open>next()\<close>: \<open>Inr None\<close> is \<open>{done: true}\<close>,
  \<open>Inr (Some batch)\<close> is \<open>{done: false, value: batch}\<close>, \<open>Inl e\<close> a rejected shard.
\<close>

fun next_batch ::
  "NgramIndice \<Rightarrow> string list \<Rightarrow> (error + weights) list \<Rightarrow> weights
    \<Rightarrow> (error + key list option) \<times> (error + weights) list \<times> weights" where
  "next_batch self tokens [] cw = (Inr None, [], cw)"
| "next_batch self tokens (Inl e # rest) cw = (Inl e, Inl e # rest, cw)"
| "next_batch self tokens (Inr res # rest) cw =
     (let cw1 = combine cw res;
          hit = postFilter self cw1 tokens;
          cw2 = foldl (\<lambda>m r. AList.delete r m) cw1 hit;
          subResult = rev (filter truthy hit)
      in if subResult \<noteq> [] then (Inr (Some subResult), rest, cw2)
         else next_batch self tokens rest cw2)"

lemma next_batch_shrinks:
  "next_batch self tokens pending cw = (Inr (Some b), pending', cw') \<Longrightarrow> length pending' < length pending"
proof (induction pending arbitrary: cw)
  case Nil
  then show ?case by simp
next
  case (Cons r rest)
  show ?case
  proof (cases r)
    case (Inl e)
    with Cons.prems show ?thesis by simp
  next
    case (Inr res)
    with Cons.prems Cons.IH show ?thesis
      by (fastforce simp: Let_def split: if_splits)
  qed
qed

text \<open>\<open>for await (const batch of cursor)\<close>: all the batches, or the rejection that ends it.\<close>

function drain :: "NgramIndice \<Rightarrow> string list \<Rightarrow> (error + weights) list \<Rightarrow> weights \<Rightarrow> error + key list list" where
  "drain self tokens pending cw =
     (case next_batch self tokens pending cw of
        (Inl e, _, _) \<Rightarrow> Inl e
      | (Inr None, _, _) \<Rightarrow> Inr []
      | (Inr (Some b), pending', cw') \<Rightarrow>
          (case drain self tokens pending' cw' of Inl e \<Rightarrow> Inl e | Inr bs \<Rightarrow> Inr (b # bs)))"
  by pat_completeness auto
termination
  by (relation "measure (\<lambda>(self, tokens, pending, cw). length pending)")
     (auto dest: next_batch_shrinks [OF sym])

text \<open>
  \<open>cursorAll(shards, value, {operator})\<close> asks every shard at once; \<open>order\<close> lists the
  positions of the shards in the order in which their promises settle.
\<close>

definition cursorAll ::
  "NgramIndice \<Rightarrow> NgramIndice list \<Rightarrow> text_value \<Rightarrow> string \<Rightarrow> nat list
    \<Rightarrow> (error + key list list) \<times> NgramIndice list" where
  "cursorAll self shards v operator order =
     (let tokens = tokens_of self v
      in case preFilter_all tokens operator shards of
           (rs, shards') \<Rightarrow> (drain self tokens (map (\<lambda>i. rs ! i) order) [], shards'))"

section \<open>The compiled build of the index (src/unnamed/part_000)\<close>

text \<open>
  The repository also holds a compiled build of the same class, made from another
  revision of the source. Its constructor, \<open>add\<close>, \<open>load\<close>, \<open>preFilter\<close>,
  \<open>postFilter\<close>, \<open>find\<close>, \<open>findAll\<close>, \<open>serialize\<close> and \<open>deserialize\<close> do what the
  definitions above do; \<open>spread\<close> and \<open>cursorAll\<close> differ and are modelled here.

  \<open>spread\<close> of the build has a cap \<open>chunkSizeMax = chunkSize * 10\<close>. For each key: when
  the Map in the making has reached \<open>chunkSize\<close> entries it becomes a shard and a new Map
  starts with the whole posting list of the key; else, when the list would take the Map
  over the cap, it is split by the same inner loop as above, run with the cap; else it is
  added to the Map. The build does not copy the posting list: the loop's \<open>splice\<close> empties
  the list of the index itself, so the state carries the entries of the index too.
\<close>

fun lib_spread_keys ::
  "nat \<Rightarrow> partial_options \<Rightarrow> string list
    \<Rightarrow> (nat \<times> postings \<times> NgramIndice list \<times> nat) \<times> postings
    \<Rightarrow> (error + (nat \<times> postings \<times> NgramIndice list \<times> nat) \<times> postings) option"
where
  "lib_spread_keys chunkSize opts [] st = Some (Inr st)"
| "lib_spread_keys chunkSize opts (k # ks) ((sz, m, shards, c), ind) =
     (case map_of ind k of
        None \<Rightarrow> Some (Inl TypeError)
      | Some v \<Rightarrow>
          if chunkSize \<le> sz
          then (case deserialize (MapObj m) (OptionsObj opts) c of
                  (shard, c') \<Rightarrow>
                    lib_spread_keys chunkSize opts ks ((length v, [(k, v)], shards @ [shard], c'), ind))
          else if chunkSize * 10 < sz + length v
          then (case split_value (chunkSize * 10) opts k v (sz, m, shards, c) of
                  None \<Rightarrow> None
                | Some st' \<Rightarrow> lib_spread_keys chunkSize opts ks (st', AList.update k [] ind))
          else lib_spread_keys chunkSize opts ks ((sz + length v, AList.update k v m, shards, c), ind))"

text \<open>It returns the shards, the entries that the index is left with, and the counter.\<close>

definition lib_spread :: "nat \<Rightarrow> NgramIndice \<Rightarrow> nat \<Rightarrow> (error + NgramIndice list \<times> postings \<times> nat) option" where
  "lib_spread chunkSize idx id_counter =
     (let opts = options_without_id (options idx)
      in case indices idx of
           MapObj ind \<Rightarrow>
             (case lib_spread_keys chunkSize opts (keys ind) ((0, [], [], id_counter), ind) of
                None \<Rightarrow> None
              | Some (Inl e) \<Rightarrow> Some (Inl e)
              | Some (Inr ((sz, m, shards, c), ind')) \<Rightarrow>
                  if sz \<noteq> 0
                  then (case deserialize (MapObj m) (OptionsObj opts) c of
                          (shard, c') \<Rightarrow> Some (Inr (shards @ [shard], ind', c')))
                  else Some (Inr (shards, ind', c)))
         | ArrayObj a \<Rightarrow> Some (if a = [] then Inr ([], [], id_counter) else Inl TypeError)
         | _ \<Rightarrow> Some (Inl TypeError))"

text \<open>
  \<open>cursorAll\<close> of the build. Its function \<open>load\<close> takes the shard results in the order in
  which they settle, each with its position: it stores the result in \<open>subResults\<close> at that
  position, adds up all the results stored so far, and puts the keys that reach the
  threshold, reversed, in front of \<open>result\<close> (the set \<open>duplicates\<close> that it filters
  with is never added to). The first \<open>next()\<close> runs \<open>load\<close> to its end and returns the
  last \<open>min(20, result.length)\<close> keys of \<open>result\<close>; \<open>allLoad\<close> is then set, and the second
  \<open>next()\<close> is \<open>{done: true}\<close>.
\<close>

fun lib_load ::
  "NgramIndice \<Rightarrow> string list \<Rightarrow> (nat \<times> (error + weights)) list \<Rightarrow> weights option list \<times> key list
    \<Rightarrow> error + key list" where
  "lib_load self tokens [] (subResults, found) = Inr found"
| "lib_load self tokens ((i, Inl e) # rest) st = Inl e"
| "lib_load self tokens ((i, Inr res) # rest) (subResults, found) =
     (let subResults' = subResults[i := Some res];
          combineWeights =
            foldl combine [] (concat (map (\<lambda>r. case r of Some w \<Rightarrow> [w] | None \<Rightarrow> []) subResults'));
          subResult = rev (postFilter self combineWeights tokens)
      in lib_load self tokens rest (subResults', subResult @ found))"

definition lib_cursorAll ::
  "NgramIndice \<Rightarrow> NgramIndice list \<Rightarrow> text_value \<Rightarrow> string \<Rightarrow> nat list
    \<Rightarrow> (error + key list list) \<times> NgramIndice list" where
  "lib_cursorAll self shards v operator order =
     (let tokens = tokens_of self v
      in case preFilter_all tokens operator shards of
           (rs, shards') \<Rightarrow>
             (case lib_load self tokens (map (\<lambda>i. (i, rs ! i)) order) (replicate (length rs) None, []) of
                Inl e \<Rightarrow> (Inl e, shards')
              | Inr found \<Rightarrow>
                  (Inr [drop (length found - min 20 (length found)) found], shards')))"

section \<open>The query planner and executor (src/src/db.ts)\<close>

subsection \<open>Criteria, schema, plans\<close>

text \<open>
  A criteria object (\<open>RawObject\<close>) is a JSON-like tree; an object is the list of its
  entries in the order of \<open>Object.entries\<close>, with distinct keys. \<open>Null\<close> stands for
  both \<open>null\<close> and \<open>undefined\<close>.
\<close>

datatype jsval = Null | Num int | Str string | Bool bool | Arr "jsval list" | Obj "(string \<times> jsval) list"

type_synonym RawObject = "(string \<times> jsval) list"

text \<open>
  An index object is known to the planner by its identity (\<open>ref\<close>: the indices are keys
  of a \<open>Map\<close>) and by its capability check \<open>testIndice(operator, value)\<close>; the index
  classes other than the n-gram index are not under src/. A binding is an entry
  \<open>{indice, path}\<close> of \<open>schema.indices\<close>.
\<close>

record ISharedIndice =
  ref :: nat
  testIndice :: "string \<Rightarrow> jsval \<Rightarrow> bool"

record binding =
  indice :: ISharedIndice
  path :: "string option"

record Schema =
  idAttr :: string
  primaryIndice :: ISharedIndice
  schema_indices :: "binding list"

record Db =
  schema :: Schema
  customOperators :: "string set"

text \<open>
  \<open>IIndiceOption\<close> as the planner stages it: a binding, with the value and operator of
  the clause and the order of the sort where they are known.
\<close>

record IIndiceOption =
  o_indice :: ISharedIndice
  o_path :: "string option"
  o_value :: "jsval option"
  o_order :: "int option"
  o_op :: "string option"

text \<open>
  The streams of candidate keys. \<open>intersectAsyncIterable\<close> and \<open>combineAsyncIterable\<close>
  are functions of utils.ts, which is not under src/: a plan names them, applied to the
  streams the planner gives them. \<open>Cursor\<close> is \<open>indice.cursor(value, {operator, sort})\<close>;
  \<open>Caching\<close> is the wrapper of \<open>indiceCursor\<close> around a cursor of the primary index.
\<close>

datatype stream =
    Cursor nat "jsval option" string int
  | Caching stream
  | Intersect "stream list"
  | Combine "stream list"

text \<open>
  \<open>ResultIndiceSearch\<close>. The field \<open>caches\<close> is the one Map of the whole call, written
  only while cursors are drawn; it is not part of the model.
\<close>

record ResultIndiceSearch =
  result :: stream
  missed :: bool
  greed :: bool
  paths :: "string option set"

definition comparableOperators :: "string set" where
  "comparableOperators = {''$eq'', ''$gt'', ''$gte'', ''$in'', ''$lt'', ''$lte'', ''$ne'', ''$nin'', ''$regex''}"

definition logicalOperators :: "string set" where
  "logicalOperators = {''$and'', ''$or''}"

definition startsWith_dollar :: "string \<Rightarrow> bool" where
  "startsWith_dollar p = (case p of [] \<Rightarrow> False | c # _ \<Rightarrow> c = CHR ''$'')"

text \<open>The constructor of \<open>Db\<close>: the custom operators are read off the schema.\<close>

definition new_Db :: "Schema \<Rightarrow> Db" where
  "new_Db s =
     \<lparr> schema = s,
       customOperators =
         set (filter (\<lambda>p. p \<notin> logicalOperators)
               (filter (\<lambda>p. p \<notin> comparableOperators)
                 (filter startsWith_dollar
                   (concat (map (\<lambda>b. case path b of Some p \<Rightarrow> [p] | None \<Rightarrow> []) (schema_indices s)))))) \<rparr>"

subsection \<open>Plan compilation\<close>

text \<open>
  The private method \<open>indiceCursor(indice, value, caches, {operator = '$eq', sort = 1})\<close>:
  the option \<open>chunkSize\<close> is passed by the planner and not read.
\<close>

definition indiceCursor :: "Db \<Rightarrow> IIndiceOption \<Rightarrow> nat \<Rightarrow> stream" where
  "indiceCursor db opt chunkSize =
     (let operator = (case o_op opt of Some x \<Rightarrow> x | None \<Rightarrow> ''$eq'');
          sort_order = (case o_order opt of Some x \<Rightarrow> x | None \<Rightarrow> 1);
          iterator = Cursor (ref (o_indice opt)) (o_value opt) operator sort_order
      in if ref (primaryIndice (schema db)) \<noteq> ref (o_indice opt) then iterator else Caching iterator)"

text \<open>
  The loop over the sort: \<open>greed\<close> starts true when a sort is given and falls to false
  as soon as a sort field has a binding; that binding is staged in \<open>sortIndices\<close>.
\<close>

fun sort_loop :: "Db \<Rightarrow> (string \<times> int) list \<Rightarrow> (nat \<times> IIndiceOption) list \<times> bool \<Rightarrow> (nat \<times> IIndiceOption) list \<times> bool" where
  "sort_loop db [] st = st"
| "sort_loop db ((k, ord) # rest) (sortIndices, g) =
     (case List.find (\<lambda>b. path b = Some k) (schema_indices (schema db)) of
        Some b \<Rightarrow>
          sort_loop db rest
            (AList.update (ref (indice b))
               \<lparr> o_indice = indice b, o_path = path b, o_value = None, o_order = Some ord, o_op = None \<rparr>
               sortIndices, False)
      | None \<Rightarrow> sort_loop db rest (sortIndices, g))"

text \<open>\<open>{ ...exists, ...indiceOptions, value, op }\<close>, \<open>exists\<close> being the staged sort of the same index.\<close>

definition stage :: "(nat \<times> IIndiceOption) list \<Rightarrow> binding \<Rightarrow> jsval \<Rightarrow> string \<Rightarrow> IIndiceOption" where
  "stage sortIndices b v operator =
     \<lparr> o_indice = indice b, o_path = path b, o_value = Some v,
       o_order = (case map_of sortIndices (ref (indice b)) of Some e \<Rightarrow> o_order e | None \<Rightarrow> None),
       o_op = Some operator \<rparr>"

text \<open>
  The returned closure, invoked: from the staged indices, the plans of the nested
  objects and the staged sorts.
\<close>

definition assemble ::
  "Db \<Rightarrow> nat \<Rightarrow> nat option \<Rightarrow> bool \<Rightarrow> bool \<Rightarrow> (nat \<times> IIndiceOption) list \<Rightarrow> (nat \<times> IIndiceOption) list
    \<Rightarrow> ResultIndiceSearch list \<Rightarrow> ResultIndiceSearch" where
  "assemble db skip limit isRoot g sortIndices indices0 subResult =
     (let chunkSize = (case limit of Some l \<Rightarrow> l | None \<Rightarrow> 0) + skip;
          vals = map snd indices0;
          simpleIterable = map (\<lambda>opt. indiceCursor db opt chunkSize) vals;
          subGreed = list_all greed subResult;
          missed0 = list_all missed subResult;
          subIterable = map result subResult;
          subPaths = \<Union> (set (map paths subResult));
          paths0 = set (map o_path vals) \<union> subPaths;
          sortedIterable =
            map (\<lambda>opt. indiceCursor db opt chunkSize)
              (filter (\<lambda>opt. o_path opt \<notin> paths0 \<and> isRoot) (map snd sortIndices))
      in \<lparr> result = Intersect (simpleIterable @ sortedIterable @ subIterable),
           missed = (sortedIterable = [] \<and> indices0 = [] \<and> missed0),
           greed = (g \<and> subGreed),
           paths = paths0 \<rparr>)"

text \<open>
  What one call of \<open>find\<close> passes unchanged to every \<open>buildIndexSearch\<close> below it: the
  database, the sort, skip and limit, and \<open>isOperator\<close>, a function of the package mingo.
\<close>

record call =
  isOperator :: "string \<Rightarrow> bool"
  db :: Db
  sort_spec :: "(string \<times> int) list option"
  skip :: nat
  limit :: "nat option"

text \<open>
  \<open>Object.entries(criteria)\<close>. The parameter is typed \<open>RawObject\<close>, but the
  sub-criteria of a logical operator reach it through the cast \<open>value as RawObject[]\<close>, so
  it may be any value: \<open>null\<close> and \<open>undefined\<close> raise a TypeError, a number or a
  boolean has no entry, a string has its characters and an array its elements, both under
  their indices.
\<close>

definition Object_entries :: "jsval \<Rightarrow> error + (string \<times> jsval) list" where
  "Object_entries v =
     (case v of
        Null \<Rightarrow> Inl TypeError
      | Num n \<Rightarrow> Inr []
      | Bool b \<Rightarrow> Inr []
      | Str s \<Rightarrow> Inr (zip (map string_of_nat [0..<length s]) (map (\<lambda>ch. Str [ch]) s))
      | Arr vs \<Rightarrow> Inr (zip (map string_of_nat [0..<length vs]) vs)
      | Obj kv \<Rightarrow> Inr kv)"

text \<open>
  The criteria object after the loop, from what the loop left of each entry: the value as
  the calls below changed it, or nothing when \<open>delete criteria[key]\<close> removed the entry.
  A deleted element of an array leaves a hole, which reads as \<open>undefined\<close>; a string and
  a number are values and do not change. \<open>untouched\<close> are the entries that the loop did
  not reach.
\<close>

definition put_entries :: "jsval \<Rightarrow> (string \<times> jsval option) list \<Rightarrow> jsval" where
  "put_entries criteria es =
     (case criteria of
        Obj kv \<Rightarrow> Obj (concat (map (\<lambda>e. case snd e of Some v \<Rightarrow> [(fst e, v)] | None \<Rightarrow> []) es))
      | Arr vs \<Rightarrow> Arr (map (\<lambda>e. case snd e of Some v \<Rightarrow> v | None \<Rightarrow> Null) es)
      | _ \<Rightarrow> criteria)"

definition untouched :: "(string \<times> jsval) list \<Rightarrow> (string \<times> jsval option) list" where
  "untouched es = map (\<lambda>e. (fst e, Some (snd e))) es"

text \<open>
  A clause that does not descend, in the three branches that the source tries in this
  order: a custom operator (staged on the last binding of that name and deleted from the
  criteria), an operator (staged on the first binding of the context's path whose
  capability check accepts it), a literal (an implicit \<open>$eq\<close> on the first binding of the
  key). It returns the Map \<open>indices\<close> and what is left of the entry.
\<close>

definition plain_clause ::
  "call \<Rightarrow> string option \<Rightarrow> (nat \<times> IIndiceOption) list \<Rightarrow> string \<Rightarrow> jsval
    \<Rightarrow> (nat \<times> IIndiceOption) list \<Rightarrow> (nat \<times> IIndiceOption) list \<times> jsval option" where
  "plain_clause c ctx_path sortIndices k v indices0 =
     (if k \<in> customOperators (db c) then
        (case rev (filter (\<lambda>b. path b = Some k) (schema_indices (schema (db c)))) of
           [] \<Rightarrow> (indices0, None)
         | b # _ \<Rightarrow>
             (AList.update (ref (indice b))
                \<lparr> o_indice = indice b, o_path = path b, o_value = Some v,
                  o_order = None, o_op = None \<rparr> indices0, None))
      else if isOperator c k then
        (case List.find (\<lambda>b. path b = ctx_path \<and> testIndice (indice b) k v)
                (schema_indices (schema (db c))) of
           None \<Rightarrow> (indices0, Some v)
         | Some b \<Rightarrow> (AList.update (ref (indice b)) (stage sortIndices b v k) indices0, Some v))
      else
        (case List.find (\<lambda>b. path b = Some k) (schema_indices (schema (db c))) of
           None \<Rightarrow> (indices0, Some v)
         | Some b \<Rightarrow> (AList.update (ref (indice b)) (stage sortIndices b v ''$eq'') indices0, Some v)))"

text \<open>The sort handling at the head of \<open>buildIndexSearch\<close>.\<close>

definition sort_indices :: "call \<Rightarrow> (nat \<times> IIndiceOption) list \<times> bool" where
  "sort_indices c = (case sort_spec c of None \<Rightarrow> ([], False) | Some s \<Rightarrow> sort_loop (db c) s ([], True))"

text \<open>
  The state of the loop over the entries: the Map \<open>indices\<close> and the list
  \<open>subIterables\<close>.
\<close>

type_synonym plan_state = "(nat \<times> IIndiceOption) list \<times> ResultIndiceSearch list"

text \<open>
  The clause that does not descend, as a step of the loop. The file is a module, so its
  code is strict: \<open>delete\<close> applied to an index of a string raises a TypeError (the
  property is not configurable). The keys of a string or an array are indices, and no
  custom operator of \<open>new_Db\<close> is one, since they all start with \<open>$\<close>.
\<close>

definition is_string :: "jsval \<Rightarrow> bool" where
  "is_string v = (case v of Str s \<Rightarrow> True | _ \<Rightarrow> False)"

definition plain ::
  "call \<Rightarrow> string option \<Rightarrow> jsval \<Rightarrow> string \<Rightarrow> jsval \<Rightarrow> plan_state \<Rightarrow> (error + plan_state) \<times> jsval option" where
  "plain c ctx_path criteria k v st =
     (case plain_clause c ctx_path (fst (sort_indices c)) k v (fst st) of
        (indices1, v') \<Rightarrow>
          if v' = None \<and> is_string criteria then (Inl TypeError, Some v)
          else (Inr (indices1, snd st), v'))"

text \<open>
  A measure for the recursion below: the calls descend into the objects and arrays of the
  criteria, and the entries of a string are strings that no call descends into.
\<close>

fun weight :: "jsval \<Rightarrow> nat" where
  "weight (Str s) = Suc (length s)"
| "weight (Arr vs) = Suc (sum_list (map (\<lambda>v. Suc (weight v)) vs))"
| "weight (Obj kv) = Suc (sum_list (map (\<lambda>e. Suc (weight (snd e))) kv))"
| "weight v = 1"

definition descends :: "jsval \<Rightarrow> nat" where
  "descends v = (case v of Arr vs \<Rightarrow> weight v | Obj kv \<Rightarrow> weight v | _ \<Rightarrow> 0)"

lemma entries_weight:
  "Object_entries criteria = Inr es \<Longrightarrow> sum_list (map (\<lambda>e. Suc (descends (snd e))) es) < weight criteria"
proof (cases criteria)
  case (Str s)
  assume "Object_entries criteria = Inr es"
  with Str have es: "es = zip (map string_of_nat [0..<length s]) (map (\<lambda>ch. Str [ch]) s)"
    by (simp add: Object_entries_def)
  have m: "map snd es = map (\<lambda>ch. Str [ch]) s"
    unfolding es by (simp add: map_snd_zip)
  have "map (\<lambda>e. Suc (descends (snd e))) es = map (\<lambda>v. Suc (descends v)) (map snd es)"
    by (simp add: comp_def)
  also have "\<dots> = map (\<lambda>ch. Suc 0) s"
    unfolding m by (simp add: descends_def comp_def)
  finally show ?thesis using Str by (simp add: sum_list_triv)
next
  case (Arr vs)
  assume "Object_entries criteria = Inr es"
  with Arr have es: "es = zip (map string_of_nat [0..<length vs]) vs"
    by (simp add: Object_entries_def)
  have m: "map snd es = vs" unfolding es by (simp add: map_snd_zip)
  have "sum_list (map (\<lambda>e. Suc (descends (snd e))) es) = sum_list (map (\<lambda>v. Suc (descends v)) (map snd es))"
    by (simp add: comp_def)
  also have "\<dots> \<le> sum_list (map (\<lambda>v. Suc (weight v)) vs)"
    unfolding m by (rule sum_list_mono) (simp add: descends_def split: jsval.splits)
  finally show ?thesis using Arr by simp
next
  case (Obj kv)
  assume "Object_entries criteria = Inr es"
  with Obj have es: "es = kv" by (simp add: Object_entries_def)
  have "sum_list (map (\<lambda>e. Suc (descends (snd e))) kv) \<le> sum_list (map (\<lambda>e. Suc (weight (snd e))) kv)"
    by (rule sum_list_mono) (simp add: descends_def split: jsval.splits)
  then show ?thesis using Obj es by simp
qed (simp_all add: Object_entries_def)

lemma entries_measure:
  "Object_entries criteria = Inr es \<Longrightarrow>
   Suc (Suc (4 * sum_list (map (\<lambda>e. Suc (descends (snd e))) es))) < 4 * weight criteria"
  using entries_weight [of criteria es] by simp

lemma elements_weight: "sum_list (map (\<lambda>v. Suc (weight v)) vs) < weight (Arr vs)"
  by simp

lemma descends_simps [simp]:
  "descends (Arr vs) = weight (Arr vs)" "descends (Obj kv) = weight (Obj kv)"
  by (simp_all add: descends_def)

text \<open>
  \<open>buildIndexSearch(criteria, sort, skip, limit, context)\<close>, with the closure it returns
  invoked at once, as \<open>find\<close> and the closure of the enclosing plan do. It returns the
  plan, or the error that \<open>Object.entries\<close> raised somewhere below, and in both cases
  the criteria as the call leaves it (\<open>delete criteria[key]\<close> changes the caller's
  object, and an error leaves what was changed before it).

  \<open>walk\<close> is the loop over \<open>Object.entries(criteria)\<close>; it stops at the first error.
  \<open>clause\<close> is the body of the loop, by the shape of the value. A logical operator with
  an array compiles every sub-criteria (\<open>compile_all\<close>, the \<open>map\<close> over the array, with
  a context that has no path) into \<open>subIt\<close>; the arrow function that follows in the source
  is an expression statement that is never called, so nothing reaches \<open>subIterables\<close> and
  only the effect of the compilations on the sub-criteria remains. An object under a key
  that is neither a custom operator nor an operator is compiled with that key as its
  path. A logical operator whose value is not an array falls through to the other
  branches.
\<close>

function buildIndexSearch ::
  "call \<Rightarrow> bool \<Rightarrow> string option \<Rightarrow> jsval \<Rightarrow> (error + ResultIndiceSearch) \<times> jsval"
and walk ::
  "call \<Rightarrow> string option \<Rightarrow> jsval \<Rightarrow> (string \<times> jsval) list \<Rightarrow> plan_state
    \<Rightarrow> (error + plan_state) \<times> (string \<times> jsval option) list"
and clause ::
  "call \<Rightarrow> string option \<Rightarrow> jsval \<Rightarrow> string \<Rightarrow> jsval \<Rightarrow> plan_state \<Rightarrow> (error + plan_state) \<times> jsval option"
and compile_all :: "call \<Rightarrow> jsval list \<Rightarrow> (error + unit) \<times> jsval list"
where
  "buildIndexSearch c isRoot ctx_path criteria =
     (case Object_entries criteria of
        Inl e \<Rightarrow> (Inl e, criteria)
      | Inr es \<Rightarrow>
          (case walk c ctx_path criteria es ([], []) of
             (Inl e, left) \<Rightarrow> (Inl e, put_entries criteria left)
           | (Inr st, left) \<Rightarrow>
               (Inr (assemble (db c) (skip c) (limit c) isRoot (snd (sort_indices c))
                       (fst (sort_indices c)) (fst st) (snd st)),
                put_entries criteria left)))"
| "walk c ctx_path criteria [] st = (Inr st, [])"
| "walk c ctx_path criteria (e # rest) st =
     (case clause c ctx_path criteria (fst e) (snd e) st of
        (Inl err, v') \<Rightarrow> (Inl err, (fst e, v') # untouched rest)
      | (Inr st1, v') \<Rightarrow>
          (case walk c ctx_path criteria rest st1 of (r, left) \<Rightarrow> (r, (fst e, v') # left)))"
| "clause c ctx_path criteria k (Arr vs) st =
     (if k \<in> logicalOperators
      then (case compile_all c vs of
              (Inl err, vs') \<Rightarrow> (Inl err, Some (Arr vs'))
            | (Inr _, vs') \<Rightarrow> (Inr st, Some (Arr vs')))
      else plain c ctx_path criteria k (Arr vs) st)"
| "clause c ctx_path criteria k (Obj kv) st =
     (if k \<in> customOperators (db c) \<or> isOperator c k
      then plain c ctx_path criteria k (Obj kv) st
      else (case buildIndexSearch c False (Some k) (Obj kv) of
              (Inl err, v') \<Rightarrow> (Inl err, Some v')
            | (Inr sub, v') \<Rightarrow> (Inr (fst st, snd st @ [sub]), Some v')))"
| "clause c ctx_path criteria k Null st = plain c ctx_path criteria k Null st"
| "clause c ctx_path criteria k (Num n) st = plain c ctx_path criteria k (Num n) st"
| "clause c ctx_path criteria k (Str s) st = plain c ctx_path criteria k (Str s) st"
| "clause c ctx_path criteria k (Bool b) st = plain c ctx_path criteria k (Bool b) st"
| "compile_all c [] = (Inr (), [])"
| "compile_all c (x # xs) =
     (case buildIndexSearch c False None x of
        (Inl err, x') \<Rightarrow> (Inl err, x' # xs)
      | (Inr _, x') \<Rightarrow> (case compile_all c xs of (r, xs') \<Rightarrow> (r, x' # xs')))"
  by pat_completeness auto

termination
proof (relation "measure (\<lambda>x. case x of
          Inl (Inl (c, isRoot, ctx_path, criteria)) \<Rightarrow> 4 * weight criteria + 1
        | Inl (Inr (c, ctx_path, criteria, es, st)) \<Rightarrow> 4 * sum_list (map (\<lambda>e. Suc (descends (snd e))) es) + 3
        | Inr (Inl (c, ctx_path, criteria, k, v, st)) \<Rightarrow> 4 * descends v + 2
        | Inr (Inr (c, vs)) \<Rightarrow> 4 * sum_list (map (\<lambda>v. Suc (weight v)) vs) + 2)")
  show "wf (measure (\<lambda>x. case x of
          Inl (Inl (c, isRoot, ctx_path, criteria)) \<Rightarrow> 4 * weight criteria + 1
        | Inl (Inr (c, ctx_path, criteria, es, st)) \<Rightarrow> 4 * sum_list (map (\<lambda>e. Suc (descends (snd e))) es) + 3
        | Inr (Inl (c, ctx_path, criteria, k, v, st)) \<Rightarrow> 4 * descends v + 2
        | Inr (Inr (c, vs)) \<Rightarrow> 4 * sum_list (map (\<lambda>v. Suc (weight v)) vs) + 2))"
    by simp
qed (auto simp: entries_measure elements_weight simp del: weight.simps)


subsection \<open>Execution\<close>

text \<open>\<open>const isEnough = () => limit && i === limit && !search.greed\<close>\<close>

definition isEnough :: "nat option \<Rightarrow> bool \<Rightarrow> nat \<Rightarrow> bool" where
  "isEnough lmt g i = (case lmt of None \<Rightarrow> False | Some l \<Rightarrow> l \<noteq> 0 \<and> i = l \<and> \<not> g)"

text \<open>
  The branch of a missed plan. The inner loop runs over one batch of the primary index's
  full scan, with the counter \<open>i\<close> and the list \<open>result\<close>; its \<open>break\<close> leaves this loop
  only, and the outer loop goes on with the next batch.
\<close>

fun scan_values ::
  "(RawObject \<Rightarrow> bool) \<Rightarrow> nat \<Rightarrow> nat option \<Rightarrow> bool \<Rightarrow> RawObject list \<Rightarrow> nat \<times> RawObject list
    \<Rightarrow> nat \<times> RawObject list" where
  "scan_values test sk lmt g [] st = st"
| "scan_values test sk lmt g (v # vs) (i, found) =
     (if test v \<and> sk \<le> i
      then (if isEnough lmt g (i + 1) then (i + 1, found @ [v])
            else scan_values test sk lmt g vs (i + 1, found @ [v]))
      else scan_values test sk lmt g vs (i, found))"

fun scan_batches ::
  "(RawObject \<Rightarrow> bool) \<Rightarrow> nat \<Rightarrow> nat option \<Rightarrow> bool \<Rightarrow> RawObject list list \<Rightarrow> nat \<times> RawObject list
    \<Rightarrow> nat \<times> RawObject list" where
  "scan_batches test sk lmt g [] st = st"
| "scan_batches test sk lmt g (b # bs) st = scan_batches test sk lmt g bs (scan_values test sk lmt g b st)"

text \<open>
  The modifiers that \<open>find\<close> puts on the cursor of the package mingo before \<open>res.all()\<close>,
  in the order of the calls.
\<close>

datatype modifier = Sort "(string \<times> int) list" | Limit nat | Skip nat

text \<open>
  How \<open>find\<close> rejects: with the error that plan compilation raised, or with the error of
  the constructor of the predicate matcher.
\<close>

datatype 'e failure = PlanError error | QueryError 'e

text \<open>
  \<open>find(criteria, sort, skip, limit)\<close>. From outside the class: \<open>mingo_Query criteria\<close>
  is \<open>new mingo.Query(criteria)\<close>, which gives the predicate matcher \<open>query.test\<close> or
  raises; \<open>primary_batches\<close> are the batches of \<open>primaryIndice.cursor()\<close>; \<open>indexed\<close>
  gives the records that the branch of an indexed plan collects by drawing
  \<open>search.result\<close> (the streams of utils.ts, not under src/). The result is the list
  handed to the mingo cursor with the modifiers put on it, or the error, and in both cases
  the criteria object as the call leaves it.
\<close>

definition Db_find ::
  "(jsval \<Rightarrow> 'e + (RawObject \<Rightarrow> bool)) \<Rightarrow> (ResultIndiceSearch \<Rightarrow> jsval \<Rightarrow> RawObject list)
    \<Rightarrow> RawObject list list \<Rightarrow> call \<Rightarrow> jsval \<Rightarrow> ('e failure + RawObject list \<times> modifier list) \<times> jsval" where
  "Db_find mingo_Query indexed primary_batches c criteria =
     (case buildIndexSearch c True None criteria of
        (Inl e, criteria') \<Rightarrow> (Inl (PlanError e), criteria')
      | (Inr search, criteria') \<Rightarrow>
          (case mingo_Query criteria' of
             Inl e \<Rightarrow> (Inl (QueryError e), criteria')
           | Inr test \<Rightarrow>
               (let found =
                      (if missed search
                       then snd (scan_batches test (skip c) (limit c) (greed search) primary_batches (0, []))
                       else indexed search criteria');
                    by_sort = (case sort_spec c of Some s \<Rightarrow> if greed search then [Sort s] else []
                               | None \<Rightarrow> []);
                    by_limit = (case limit c of Some l \<Rightarrow> if l \<noteq> 0 \<and> greed search then [Limit l] else []
                                | None \<Rightarrow> []);
                    by_skip = (if skip c \<noteq> 0 \<and> greed search then [Skip (skip c)] else [])
                in (Inr (found, by_sort @ by_limit @ by_skip), criteria'))))"

text \<open>\<open>isArray\<close> of the package mingo.\<close>

fun isArray :: "jsval \<Rightarrow> bool" where
  "isArray (Arr vs) = True"
| "isArray v = False"

section \<open>Observations and example inputs\<close>

text \<open>The entries of the field \<open>indices\<close> when it is a Map, and when it is an array.\<close>

definition map_entries :: "NgramIndice \<Rightarrow> postings option" where
  "map_entries idx = (case indices idx of MapObj m \<Rightarrow> Some m | _ \<Rightarrow> None)"

definition array_entries :: "NgramIndice \<Rightarrow> postings option" where
  "array_entries idx = (case indices idx of ArrayObj a \<Rightarrow> Some a | _ \<Rightarrow> None)"

text \<open>\<open>new NgramIndice({actuationLimit: 1})\<close>, the first index of the module.\<close>

definition limit1_options :: partial_options where
  "limit1_options = no_options\<lparr>p_actuationLimit := Some 1\<rparr>"

definition fresh_index :: NgramIndice where
  "fresh_index = fst (new_NgramIndice limit1_options 1)"

text \<open>\<open>add(0, "abc")\<close> on it, and its shards by \<open>spread()\<close>.\<close>

definition index_zero :: NgramIndice where
  "index_zero = (case add (NumKey 0) (One ''abc'') fresh_index of Inr i \<Rightarrow> i | Inl _ \<Rightarrow> fresh_index)"

definition shards_zero :: "NgramIndice list" where
  "shards_zero = (case spread CHUNK_SIZE_DEFAULT index_zero 2 of Some (Inr (ss, _)) \<Rightarrow> ss | _ \<Rightarrow> [])"

text \<open>\<open>add(1, "abcdef")\<close> on the fresh index, and its shards by \<open>spread(2)\<close>.\<close>

definition index_abcdef :: NgramIndice where
  "index_abcdef = (case add (NumKey 1) (One ''abcdef'') fresh_index of Inr i \<Rightarrow> i | Inl _ \<Rightarrow> fresh_index)"

definition shards_abcdef :: "NgramIndice list" where
  "shards_abcdef = (case spread 2 index_abcdef 2 of Some (Inr (ss, _)) \<Rightarrow> ss | _ \<Rightarrow> [])"

text \<open>
  \<open>add(0, "abc")\<close> and \<open>add(1, "abd abd ... abd")\<close>, the word eleven times, on the fresh
  index: the token \<open>"abd"\<close> has eleven entries.
\<close>

definition index_eleven :: NgramIndice where
  "index_eleven =
     (case add (NumKey 0) (One ''abc'') fresh_index of
        Inl _ \<Rightarrow> fresh_index
      | Inr i \<Rightarrow>
          (case add (NumKey 1) (One ''abd abd abd abd abd abd abd abd abd abd abd'') i of
             Inl _ \<Rightarrow> fresh_index
           | Inr j \<Rightarrow> j))"

text \<open>\<open>add(k, "abc")\<close> for the 21 keys from 1 to 21, and the one shard of \<open>spread()\<close>.\<close>

definition index_21 :: NgramIndice where
  "index_21 =
     foldl (\<lambda>i k. case add (NumKey k) (One ''abc'') i of Inr j \<Rightarrow> j | Inl _ \<Rightarrow> i) fresh_index [1..21]"

definition shards_21 :: "NgramIndice list" where
  "shards_21 = (case lib_spread CHUNK_SIZE_DEFAULT index_21 2 of Some (Inr (ss, _)) \<Rightarrow> ss | _ \<Rightarrow> [])"

text \<open>
  \<open>add(1, "abc")\<close> on the fresh index, and
  \<open>NgramIndice.deserialize(s.data, s.options)\<close> for \<open>s\<close> its \<open>serialize()\<close>.
\<close>

definition index_one :: NgramIndice where
  "index_one = (case add (NumKey 1) (One ''abc'') fresh_index of Inr i \<Rightarrow> i | Inl _ \<Rightarrow> fresh_index)"

definition index_one_restored :: NgramIndice where
  "index_one_restored =
     (case serialize index_one of
        Inr (d, opts) \<Rightarrow> fst (deserialize (ArrayObj d) (OptionsObj opts) 2)
      | Inl _ \<Rightarrow> fresh_index)"

text \<open>
  A schema like that of test/db.test.ts: the primary index, a text index bound to the
  custom operator \<open>$text\<close> and an index on the field \<open>continent\<close> that serves the
  comparison operators.
\<close>

definition primary_index :: ISharedIndice where
  "primary_index = \<lparr> ref = 0, testIndice = (\<lambda>k v. k \<in> comparableOperators) \<rparr>"

definition text_index :: ISharedIndice where
  "text_index = \<lparr> ref = 1, testIndice = (\<lambda>k v. False) \<rparr>"

definition continent_index :: ISharedIndice where
  "continent_index = \<lparr> ref = 2, testIndice = (\<lambda>k v. k \<in> comparableOperators) \<rparr>"

definition countries_schema :: Schema where
  "countries_schema =
     \<lparr> idAttr = ''id'', primaryIndice = primary_index,
       schema_indices = [\<lparr> indice = text_index, path = Some ''$text'' \<rparr>,
                         \<lparr> indice = continent_index, path = Some ''continent'' \<rparr>] \<rparr>"

text \<open>A call of \<open>find\<close> with no sort, no skip and no limit; any key that starts with \<open>$\<close> is an operator.\<close>

definition plain_call :: call where
  "plain_call = \<lparr> isOperator = startsWith_dollar, db = new_Db countries_schema,
                  sort_spec = None, skip = 0, limit = None \<rparr>"

text \<open>A predicate matcher for criteria made of literals: every field has the value asked for.\<close>

definition matches_literals :: "RawObject \<Rightarrow> RawObject \<Rightarrow> bool" where
  "matches_literals criteria r = list_all (\<lambda>(k, v). map_of r k = Some v) criteria"

text \<open>The matcher's constructor when it accepts every criteria.\<close>

definition literal_Query :: "jsval \<Rightarrow> unit + (RawObject \<Rightarrow> bool)" where
  "literal_Query criteria = Inr (matches_literals (case criteria of Obj kv \<Rightarrow> kv | _ \<Rightarrow> []))"


definition angola :: RawObject where
  "angola = [(''id'', Num 0), (''country'', Str ''Angola''), (''continent'', Str ''Africa''), (''landlocked'', Bool False)]"

definition benin :: RawObject where
  "benin = [(''id'', Num 1), (''country'', Str ''Benin''), (''continent'', Str ''Africa''), (''landlocked'', Bool False)]"

definition chad :: RawObject where
  "chad = [(''id'', Num 2), (''country'', Str ''Chad''), (''continent'', Str ''Africa''), (''landlocked'', Bool True)]"

text \<open>
  What a shard holds, for the statement about \<open>spread\<close>: the posting list of a token
  (none is the empty list), the number of posting-list entries, the tokens, and whether the
  field \<open>indices\<close> is a Map.
\<close>

definition lookup :: "postings \<Rightarrow> string \<Rightarrow> key list" where
  "lookup m t = (case map_of m t of Some l \<Rightarrow> l | None \<Rightarrow> [])"

definition entries_total :: "postings \<Rightarrow> nat" where
  "entries_total m = sum_list (map (\<lambda>e. length (snd e)) m)"

definition posting :: "NgramIndice \<Rightarrow> string \<Rightarrow> key list" where
  "posting idx t = (case map_entries idx of Some m \<Rightarrow> lookup m t | None \<Rightarrow> [])"

definition entry_count :: "NgramIndice \<Rightarrow> nat" where
  "entry_count idx = (case map_entries idx of Some m \<Rightarrow> entries_total m | None \<Rightarrow> 0)"

definition tokens_in :: "NgramIndice \<Rightarrow> string set" where
  "tokens_in idx = (case map_entries idx of Some m \<Rightarrow> fst ` set m | None \<Rightarrow> {})"

definition is_map :: "NgramIndice \<Rightarrow> bool" where
  "is_map idx = (case map_entries idx of Some m \<Rightarrow> distinct (map fst m) | None \<Rightarrow> False)"

text \<open>
  The invariant of the loop of \<open>spread\<close> over the keys, \<open>P\<close> being the keys already
  seen: the shards made so far and the Map in the making hold, token by token, the posting
  lists of the keys seen, and nothing holds more than \<open>chunkSize\<close> entries.
\<close>

definition spread_inv :: "nat \<Rightarrow> postings \<Rightarrow> string set \<Rightarrow> nat \<times> postings \<times> NgramIndice list \<times> nat \<Rightarrow> bool" where
  "spread_inv cs ind P st =
     (case st of (sz, m, res, c) \<Rightarrow>
        distinct (map fst m) \<and> entries_total m = sz \<and> sz \<le> cs \<and> fst ` set m \<subseteq> P
        \<and> (\<forall>t. concat (map (\<lambda>s. posting s t) res) @ lookup m t = (if t \<in> P then lookup ind t else []))
        \<and> list_all (\<lambda>s. entry_count s \<le> cs \<and> tokens_in s \<subseteq> P \<and> is_map s) res)"

text \<open>The index after a load that resolved with \<open>data\<close>, and after a load that was rejected.\<close>

definition after_load :: "NgramIndice \<Rightarrow> postings \<Rightarrow> NgramIndice" where
  "after_load idx data =
     idx\<lparr>indices := MapObj (new_Map data), options := (options idx)\<lparr>isLoaded := True\<rparr>,
         loadCalls := loadCalls idx + 1\<rparr>"

definition after_rejection :: "NgramIndice \<Rightarrow> NgramIndice" where
  "after_rejection idx = idx\<lparr>loadCalls := loadCalls idx + 1\<rparr>"

text \<open>Indices made with \<open>isLoaded: false\<close>: without a load function, with one that resolves, and with one
  that rejects its first call.\<close>

definition abc_entries :: postings where
  "abc_entries = [(''abc'', [NumKey 1])]"

definition unloadable_index :: NgramIndice where
  "unloadable_index = fst (new_NgramIndice (no_options\<lparr>p_actuationLimit := Some 1, p_isLoaded := Some False\<rparr>) 1)"

definition lazy_index :: NgramIndice where
  "lazy_index =
     fst (new_NgramIndice (no_options\<lparr>p_actuationLimit := Some 1, p_isLoaded := Some False,
                                       p_load := Some (\<lambda>n. Inr abc_entries)\<rparr>) 1)"

definition flaky_index :: NgramIndice where
  "flaky_index =
     fst (new_NgramIndice (no_options\<lparr>p_actuationLimit := Some 1, p_isLoaded := Some False,
            p_load := Some (\<lambda>n. if n = 0 then Inl (Rejected ''offline'') else Inr abc_entries)\<rparr>) 1)"

text \<open>
  Two calls of \<open>preFilter\<close> on one index, the second made before the load of the first
  has settled, as in \<open>Promise.all([idx.preFilter(t1), idx.preFilter(t2)])\<close>: both run
  their first segment, then the two loads settle, then both count.
\<close>

definition overlapped_preFilters ::
  "string list \<Rightarrow> string list \<Rightarrow> string \<Rightarrow> NgramIndice
    \<Rightarrow> ((error + weights) \<times> (error + weights)) \<times> NgramIndice" where
  "overlapped_preFilters tokens1 tokens2 operator idx =
     (case load_begin idx of (s1, i1) \<Rightarrow>
      case load_begin i1 of (s2, i2) \<Rightarrow>
      case load_resume s1 i2 of (r1, i3) \<Rightarrow>
      case load_resume s2 i3 of (r2, i4) \<Rightarrow>
        ((preFilter_count tokens1 operator r1 i4, preFilter_count tokens2 operator r2 i4), i4))"

text \<open>The error that a call raised, if it raised one.\<close>

definition raised :: "(error + 'a) \<times> 'b \<Rightarrow> error option" where
  "raised x = (case fst x of Inl e \<Rightarrow> Some e | Inr _ \<Rightarrow> None)"

text \<open>
  The weight of a key in one result of \<open>preFilter\<close>, its weight over the results of
  all the shards, and the limit that \<open>postFilter\<close> compares a weight with.
\<close>

definition wt :: "weights \<Rightarrow> key \<Rightarrow> nat" where
  "wt m k = (case map_of m k of Some c \<Rightarrow> c | None \<Rightarrow> 0)"

definition total_weight :: "weights list \<Rightarrow> key \<Rightarrow> nat" where
  "total_weight ws k = sum_list (map (\<lambda>w. wt w k) ws)"

definition threshold :: "NgramIndice \<Rightarrow> string list \<Rightarrow> rat" where
  "threshold self tokens =
     getLimit (actuationLimitAuto (options self)) (length tokens) (actuationLimit (options self))"

section \<open>Results\<close>

subsection \<open>The executor on a missed plan\<close>

text \<open>
  C1. On a plan with no index, \<open>find\<close> should return the records of the primary
  collection that the matcher accepts, without the first \<open>skip\<close> of them and at most
  \<open>limit\<close> of them. The code compares the counter with \<open>skip\<close> before it has counted the
  record, so with \<open>skip = 1\<close> nothing is ever kept: of the two records that are not
  landlocked the caller gets none, where the claim gives the second. And the \<open>break\<close>
  on the limit leaves only the loop over one batch: with \<open>limit = 1\<close> and the records in
  three batches the caller gets both.
\<close>

theorem find_missed_skip_and_limit:
  "map_sum (\<lambda>e. e) missed
      (fst (buildIndexSearch (plain_call\<lparr>skip := 1\<rparr>) True None (Obj [(''landlocked'', Bool False)])))
     = Inr True
   \<and> filter (matches_literals [(''landlocked'', Bool False)]) [angola, benin, chad] = [angola, benin]
   \<and> Db_find literal_Query (\<lambda>s c. []) [[angola, benin, chad]] (plain_call\<lparr>skip := 1\<rparr>)
        (Obj [(''landlocked'', Bool False)])
      = (Inr ([], []), Obj [(''landlocked'', Bool False)])
   \<and> map_sum (\<lambda>e. e) missed
      (fst (buildIndexSearch (plain_call\<lparr>limit := Some 1\<rparr>) True None (Obj [(''landlocked'', Bool False)])))
     = Inr True
   \<and> Db_find literal_Query (\<lambda>s c. []) [[angola], [benin], [chad]] (plain_call\<lparr>limit := Some 1\<rparr>)
        (Obj [(''landlocked'', Bool False)])
      = (Inr ([angola, benin], []), Obj [(''landlocked'', Bool False)])"
  by code_simp

text \<open>
  In general the branch keeps nothing once \<open>skip\<close> is positive, whatever the records;
  without skip and limit it keeps the accepted records of all the batches, in their order.
\<close>

lemma scan_values_skip:
  "i < sk \<Longrightarrow> scan_values test sk lmt g vs (i, found) = (i, found)"
  by (induction vs) auto

lemma scan_batches_skip:
  "i < sk \<Longrightarrow> scan_batches test sk lmt g bs (i, found) = (i, found)"
  by (induction bs) (auto simp: scan_values_skip)

lemma scan_values_all:
  "scan_values test 0 None g vs (i, found) = (i + length (filter test vs), found @ filter test vs)"
  by (induction vs arbitrary: i found) (auto simp: isEnough_def)

lemma scan_batches_all:
  "scan_batches test 0 None g bs (i, found)
     = (i + length (filter test (concat bs)), found @ filter test (concat bs))"
  by (induction bs arbitrary: i found) (auto simp: scan_values_all)

subsection \<open>Logical combinators in the planner\<close>

text \<open>
  C2. A \<open>$or\<close> over sub-criteria should give the union of the children's streams and the
  disjunction of their flags. The only sub-criteria of \<open>{$or: [{continent: "Africa"}]}\<close>
  compiles, alone, to an indexed plan (not missed) that draws the cursor of the
  \<open>continent\<close> index; the plan of the whole criteria is missed and intersects no stream at
  all, because the combination that the source writes down is never run.
\<close>

theorem logical_combinator_not_planned:
  "fst (buildIndexSearch plain_call False None (Obj [(''continent'', Str ''Africa'')]))
     = Inr \<lparr> result = Intersect [Cursor 2 (Some (Str ''Africa'')) ''$eq'' 1], missed = False,
             greed = False, paths = {Some ''continent''} \<rparr>
   \<and> fst (buildIndexSearch plain_call True None
            (Obj [(''$or'', Arr [Obj [(''continent'', Str ''Africa'')]])]))
     = Inr \<lparr> result = Intersect [], missed = True, greed = False, paths = {} \<rparr>
   \<and> fst (buildIndexSearch plain_call True None
            (Obj [(''$and'', Arr [Obj [(''continent'', Str ''Africa'')]])]))
     = Inr \<lparr> result = Intersect [], missed = True, greed = False, paths = {} \<rparr>"
  by code_simp

subsection \<open>Queries over shards\<close>

text \<open>
  C3. The keys of all the batches of \<open>cursorAll\<close> should be the keys of \<open>findAll\<close>.
  The callback of the filter in \<open>cursorAll\<close> returns the key itself, so a key that
  JavaScript takes for false is dropped: for the index that holds the record 0 under
  \<open>"abc"\<close>, \<open>findAll\<close> answers 0 and \<open>cursorAll\<close> has no batch.
\<close>

theorem cursorAll_loses_key_zero:
  "map_entries index_zero = Some [(''abc'', [NumKey 0])]
   \<and> map map_entries shards_zero = [Some [(''abc'', [NumKey 0])]]
   \<and> fst (findAll index_zero shards_zero (One ''abc'') ''$eq'') = Inr [NumKey 0]
   \<and> fst (cursorAll index_zero shards_zero (One ''abc'') ''$eq'' [0]) = Inr []"
  by code_simp

text \<open>
  C4. No key should be in two batches of one \<open>cursorAll\<close>. Deleting an emitted key from
  the running weights makes it start again from nothing: the three shards of
  \<open>spread(2)\<close> each give the key 1 a weight that reaches the limit 1, and the key is
  emitted three times, whatever the order in which the shards answer.
\<close>

theorem cursorAll_emits_key_again:
  "map map_entries shards_abcdef
     = [Some [(''abc'', [NumKey 1]), (''bcd'', [NumKey 1]), (''cde'', [])],
        Some [(''cde'', [NumKey 1])], Some [(''def'', [NumKey 1])]]
   \<and> fst (findAll index_abcdef shards_abcdef (One ''abcdef'') ''$eq'') = Inr [NumKey 1]
   \<and> fst (cursorAll index_abcdef shards_abcdef (One ''abcdef'') ''$eq'' [0, 1, 2])
       = Inr [[NumKey 1], [NumKey 1], [NumKey 1]]
   \<and> fst (cursorAll index_abcdef shards_abcdef (One ''abcdef'') ''$eq'' [2, 0, 1])
       = Inr [[NumKey 1], [NumKey 1], [NumKey 1]]"
  by code_simp

subsection \<open>Where the cursor and \<open>findAll\<close> agree\<close>

text \<open>
  The two differ by the keys that JavaScript takes for false and by nothing else: when
  every key that \<open>findAll\<close> answers is truthy, the batches of \<open>cursorAll\<close> hold
  exactly these keys, in whatever order the shards answer. (A key may still be in
  more than one batch.)
\<close>

lemma combine_Cons:
  "combine a ((k, v) # b) = combine (AList.update k (wt a k + v) a) b"
  by (simp add: combine_def wt_def)

lemma combine_Nil [simp]: "combine a [] = a"
  by (simp add: combine_def)

lemma map_of_combine:
  "distinct (map fst b) \<Longrightarrow>
   map_of (combine a b) k = (case map_of b k of None \<Rightarrow> map_of a k | Some v \<Rightarrow> Some (wt a k + v))"
proof (induction b arbitrary: a)
  case Nil
  then show ?case by simp
next
  case (Cons e b)
  obtain k0 v0 where e: "e = (k0, v0)" by (cases e) auto
  with Cons.prems have d: "distinct (map fst b)" and n: "k0 \<notin> fst ` set b" by auto
  have n': "map_of b k0 = None" using n by (simp add: map_of_eq_None_iff)
  show ?case
    unfolding e combine_Cons Cons.IH [OF d]
    using n' by (auto simp: update_conv' wt_def split: option.splits)
qed

lemma distinct_combine: "distinct (map fst a) \<Longrightarrow> distinct (map fst (combine a b))"
proof (induction b arbitrary: a)
  case Nil
  then show ?case by simp
next
  case (Cons e b)
  obtain k0 v0 where e: "e = (k0, v0)" by (cases e) auto
  show ?case unfolding e combine_Cons using Cons.prems by (intro Cons.IH) (simp add: distinct_update)
qed

lemma set_postFilter:
  "distinct (map fst m) \<Longrightarrow>
   set (postFilter self m tokens) = {k. \<exists>c. map_of m k = Some c \<and> threshold self tokens \<le> of_nat c}"
  by (auto simp: postFilter_def threshold_def Let_def image_iff)

lemma delete_all:
  "map_of (foldl (\<lambda>m r. AList.delete r m) m hit) k = (if k \<in> set hit then None else map_of m k)"
  by (induction hit arbitrary: m) (auto simp: delete_conv')

lemma distinct_delete_all:
  "distinct (map fst m) \<Longrightarrow> distinct (map fst (foldl (\<lambda>m r. AList.delete r m) m hit))"
  by (induction hit arbitrary: m) (auto simp: distinct_delete)


lemma wt_combine:
  "distinct (map fst b) \<Longrightarrow> wt (combine a b) k = wt a k + wt b k"
  by (simp add: wt_def map_of_combine split: option.splits)

lemma dom_combine:
  "distinct (map fst b) \<Longrightarrow> map_of (combine a b) k = None \<longleftrightarrow> map_of a k = None \<and> map_of b k = None"
  by (simp add: map_of_combine split: option.splits)

lemma foldl_combine:
  "distinct (map fst a) \<Longrightarrow> list_all (\<lambda>w. distinct (map fst w)) ws \<Longrightarrow>
   distinct (map fst (foldl combine a ws))
   \<and> wt (foldl combine a ws) k = wt a k + total_weight ws k
   \<and> (map_of (foldl combine a ws) k = None \<longleftrightarrow> map_of a k = None \<and> list_all (\<lambda>w. map_of w k = None) ws)"
proof (induction ws arbitrary: a)
  case Nil
  then show ?case by (simp add: total_weight_def)
next
  case (Cons w ws)
  from Cons.prems have dw: "distinct (map fst w)" and dws: "list_all (\<lambda>w. distinct (map fst w)) ws"
    by simp_all
  have da: "distinct (map fst (combine a w))"
    using Cons.prems(1) by (rule distinct_combine)
  from Cons.IH [OF da dws] show ?case
    by (simp add: wt_combine [OF dw] dom_combine [OF dw] total_weight_def)
qed

lemma drain_step:
  "drain self tokens (Inr res # rest) cw =
     (let cw1 = combine cw res;
          hit = postFilter self cw1 tokens;
          cw2 = foldl (\<lambda>m r. AList.delete r m) cw1 hit;
          subResult = rev (filter truthy hit)
      in if subResult \<noteq> []
         then (case drain self tokens rest cw2 of Inl e \<Rightarrow> Inl e | Inr bs \<Rightarrow> Inr (subResult # bs))
         else drain self tokens rest cw2)"
proof -
  let ?cw1 = "combine cw res"
  let ?hit = "postFilter self ?cw1 tokens"
  let ?cw2 = "foldl (\<lambda>m r. AList.delete r m) ?cw1 ?hit"
  show ?thesis
  proof (cases "rev (filter truthy ?hit) \<noteq> []")
    case True
    then have "next_batch self tokens (Inr res # rest) cw = (Inr (Some (rev (filter truthy ?hit))), rest, ?cw2)"
      by (simp add: Let_def)
    then show ?thesis
      using True by (subst drain.simps) (simp add: Let_def)
  next
    case False
    then have n: "next_batch self tokens (Inr res # rest) cw = next_batch self tokens rest ?cw2"
      by (simp add: Let_def)
    have "drain self tokens (Inr res # rest) cw = drain self tokens rest ?cw2"
      by (subst drain.simps, subst (2) drain.simps) (simp only: n)
    then show ?thesis using False by (simp add: Let_def)
  qed
qed

lemma drain_Nil: "drain self tokens [] cw = Inr []"
  by (subst drain.simps) simp

lemma drain_hits:
  assumes "list_all (\<lambda>w. distinct (map fst w)) ws"
  shows "distinct (map fst cw) \<Longrightarrow> \<forall>k c. map_of cw k = Some c \<longrightarrow> of_nat c < threshold self tokens \<Longrightarrow>
    \<exists>bs. drain self tokens (map Inr ws) cw = Inr bs
      \<and> set (concat bs) = {k. truthy k \<and> \<not> list_all (\<lambda>w. map_of w k = None) ws
                               \<and> threshold self tokens \<le> of_nat (wt cw k + total_weight ws k)}"
  using assms
proof (induction ws arbitrary: cw)
  case Nil
  then show ?case by (simp add: drain_Nil)
next
  case (Cons w ws)
  let ?l = "threshold self tokens"
  let ?cw1 = "combine cw w"
  let ?hit = "postFilter self ?cw1 tokens"
  let ?cw2 = "foldl (\<lambda>m r. AList.delete r m) ?cw1 ?hit"
  from Cons.prems have dw: "distinct (map fst w)" and dws: "list_all (\<lambda>w. distinct (map fst w)) ws"
    by simp_all
  have d1: "distinct (map fst ?cw1)" using Cons.prems(1) by (rule distinct_combine)
  have d2: "distinct (map fst ?cw2)" using d1 by (rule distinct_delete_all)
  have hit: "set ?hit = {k. \<exists>c. map_of ?cw1 k = Some c \<and> ?l \<le> of_nat c}"
    using d1 by (rule set_postFilter)
  have m2: "\<And>k. map_of ?cw2 k = (if k \<in> set ?hit then None else map_of ?cw1 k)"
    by (rule delete_all)
  have low: "\<forall>k c. map_of ?cw2 k = Some c \<longrightarrow> of_nat c < ?l"
  proof (intro allI impI)
    fix k c assume "map_of ?cw2 k = Some c"
    then have "k \<notin> set ?hit" "map_of ?cw1 k = Some c" by (auto simp: m2 split: if_splits)
    then show "of_nat c < ?l" unfolding hit by auto
  qed
  from Cons.IH [OF d2 low dws] obtain bs where
    bs: "drain self tokens (map Inr ws) ?cw2 = Inr bs"
    and sbs: "set (concat bs) = {k. truthy k \<and> \<not> list_all (\<lambda>w. map_of w k = None) ws
                               \<and> ?l \<le> of_nat (wt ?cw2 k + total_weight ws k)}"
    by blast
  have hit_in_w: "\<And>k. k \<in> set ?hit \<Longrightarrow> map_of w k \<noteq> None"
  proof
    fix k assume k: "k \<in> set ?hit" and n: "map_of w k = None"
    from k obtain c where c: "map_of ?cw1 k = Some c" "?l \<le> of_nat c" unfolding hit by auto
    with n have "map_of cw k = Some c" by (simp add: map_of_combine [OF dw])
    with Cons.prems(2) have "of_nat c < ?l" by blast
    with c(2) show False by simp
  qed
  have hit_wt: "\<And>k. k \<in> set ?hit \<longleftrightarrow> map_of ?cw1 k \<noteq> None \<and> ?l \<le> of_nat (wt cw k + wt w k)"
  proof -
    fix k
    have "\<And>c. map_of ?cw1 k = Some c \<Longrightarrow> c = wt cw k + wt w k"
      using wt_combine [OF dw, of cw k] by (simp add: wt_def)
    then show "k \<in> set ?hit \<longleftrightarrow> map_of ?cw1 k \<noteq> None \<and> ?l \<le> of_nat (wt cw k + wt w k)"
      unfolding hit by auto
  qed
  have wt2: "\<And>k. k \<notin> set ?hit \<Longrightarrow> wt ?cw2 k = wt cw k + wt w k"
    using wt_combine [OF dw, of cw] by (simp add: wt_def m2)
  have wt2le: "\<And>k. wt ?cw2 k \<le> wt cw k + wt w k"
    using wt_combine [OF dw, of cw] by (simp add: wt_def m2)
  have tw: "\<And>k. total_weight (w # ws) k = wt w k + total_weight ws k"
    by (simp add: total_weight_def)
  have absent: "\<And>k. list_all (\<lambda>w. map_of w k = None) ws \<Longrightarrow> total_weight ws k = 0"
    by (simp add: total_weight_def wt_def list_all_iff)
  have target: "set (filter truthy ?hit) \<union> set (concat bs)
      = {k. truthy k \<and> \<not> list_all (\<lambda>w. map_of w k = None) (w # ws)
             \<and> ?l \<le> of_nat (wt cw k + total_weight (w # ws) k)}" (is "?L = ?R")
  proof (rule set_eqI)
    fix k
    show "k \<in> ?L \<longleftrightarrow> k \<in> ?R"
    proof (cases "k \<in> set ?hit")
      case True
      have "?l \<le> of_nat (wt cw k + wt w k)" using True hit_wt by blast
      also have "(of_nat (wt cw k + wt w k) :: rat) \<le> of_nat (wt cw k + total_weight (w # ws) k)"
        unfolding tw by simp
      finally have "?l \<le> of_nat (wt cw k + total_weight (w # ws) k)" .
      moreover have "\<not> list_all (\<lambda>w. map_of w k = None) (w # ws)"
        using hit_in_w [OF True] by simp
      moreover have "k \<in> set (concat bs) \<Longrightarrow> truthy k" using sbs by blast
      ultimately show ?thesis using True by auto
    next
      case False
      have w2: "wt ?cw2 k + total_weight ws k = wt cw k + total_weight (w # ws) k"
        using wt2 [OF False] tw by simp
      show ?thesis
      proof (cases "list_all (\<lambda>w. map_of w k = None) ws")
        case True
        have "k \<notin> ?R"
        proof
          assume "k \<in> ?R"
          then have p: "map_of w k \<noteq> None" and g: "?l \<le> of_nat (wt cw k + total_weight (w # ws) k)"
            using True by auto
          have "map_of ?cw1 k \<noteq> None" using p by (simp add: dom_combine [OF dw])
          moreover have "?l \<le> of_nat (wt cw k + wt w k)" using g tw absent [OF True] by simp
          ultimately show False using False hit_wt by blast
        qed
        moreover have "k \<notin> ?L" using False True sbs by auto
        ultimately show ?thesis by blast
      next
        case present: False
        then show ?thesis using False sbs w2 by auto
      qed
    qed
  qed
  show ?case
  proof (cases "rev (filter truthy ?hit) \<noteq> []")
    case True
    then have "drain self tokens (map Inr (w # ws)) cw = Inr (rev (filter truthy ?hit) # bs)"
      using bs by (simp add: drain_step Let_def)
    moreover have "set (concat (rev (filter truthy ?hit) # bs)) = set (filter truthy ?hit) \<union> set (concat bs)"
      by simp
    ultimately show ?thesis using target by (metis (no_types, lifting))
  next
    case False
    then have "drain self tokens (map Inr (w # ws)) cw = Inr bs"
      using bs by (simp add: drain_step Let_def)
    moreover have "set (filter truthy ?hit) = {}" using False by simp
    ultimately show ?thesis using target by (metis (no_types, lifting) sup_bot.left_neutral)
  qed
qed


lemma distinct_count_ids: "distinct (map fst acc) \<Longrightarrow> distinct (map fst (count_ids ids acc))"
  by (induction ids arbitrary: acc) (auto simp: distinct_update)

lemma distinct_count_tokens:
  "distinct (map fst acc) \<Longrightarrow> count_tokens idx operator ts acc = Inr w \<Longrightarrow> distinct (map fst w)"
proof (induction ts arbitrary: acc)
  case Nil
  then show ?case by simp
next
  case (Cons t ts)
  show ?case
  proof (cases "getIndices idx t operator")
    case (Inl e)
    with Cons.prems show ?thesis by simp
  next
    case (Inr r)
    show ?thesis
    proof (cases r)
      case None
      with Inr Cons.prems Cons.IH [of acc] show ?thesis by simp
    next
      case (Some ids)
      with Inr Cons.prems Cons.IH [of "count_ids ids acc"] show ?thesis
        by (simp add: distinct_count_ids)
    qed
  qed
qed

lemma distinct_preFilter:
  "fst (preFilter tokens operator idx) = Inr w \<Longrightarrow> distinct (map fst w)"
  using distinct_count_tokens [of "[]" "snd (load_indice idx)" operator tokens w]
  by (auto simp: preFilter_def split: prod.splits sum.splits)

lemma preFilter_all_results:
  "Inr w \<in> set (fst (preFilter_all tokens operator shards)) \<Longrightarrow> distinct (map fst w)"
proof (induction shards)
  case Nil
  then show ?case by simp
next
  case (Cons s ss)
  obtain r s' where p: "preFilter tokens operator s = (r, s')"
    by (cases "preFilter tokens operator s") auto
  obtain rs ss' where q: "preFilter_all tokens operator ss = (rs, ss')"
    by (cases "preFilter_all tokens operator ss") auto
  from Cons.prems p q have "Inr w = r \<or> Inr w \<in> set rs" by auto
  then show ?case
  proof
    assume "Inr w = r"
    with p distinct_preFilter [of tokens operator s w] show ?thesis by simp
  next
    assume "Inr w \<in> set rs"
    with Cons.IH q show ?thesis by simp
  qed
qed

lemma all_resolved_Inr: "all_resolved rs = Inr ws \<Longrightarrow> rs = map Inr ws"
proof (induction rs arbitrary: ws)
  case Nil
  then show ?case by simp
next
  case (Cons r rs)
  then show ?case
    by (cases r; cases "all_resolved rs") auto
qed

lemma set_findAll_weights:
  assumes "list_all (\<lambda>w. distinct (map fst w)) ws"
  shows "set (postFilter self (foldl combine [] ws) tokens)
           = {k. \<not> list_all (\<lambda>w. map_of w k = None) ws
                 \<and> threshold self tokens \<le> of_nat (total_weight ws k)}"
proof -
  have d0: "distinct (map fst ([] :: weights))" by simp
  note f = foldl_combine [OF d0 assms]
  have "\<And>k c. map_of (foldl combine [] ws) k = Some c \<Longrightarrow> c = total_weight ws k"
  proof -
    fix k c assume "map_of (foldl combine [] ws) k = Some c"
    then have "wt (foldl combine [] ws) k = c" by (simp add: wt_def)
    with f [of k] show "c = total_weight ws k" by (simp add: wt_def)
  qed
  moreover have "\<And>k. map_of (foldl combine [] ws) k \<noteq> None \<longleftrightarrow> \<not> list_all (\<lambda>w. map_of w k = None) ws"
    using f by simp
  ultimately show ?thesis
    unfolding set_postFilter [OF conjunct1 [OF f]] by (auto; metis)
qed

lemma total_weight_mset: "mset ws = mset ws' \<Longrightarrow> total_weight ws k = total_weight ws' k"
proof -
  assume "mset ws = mset ws'"
  then have "mset (map (\<lambda>w. wt w k) ws) = mset (map (\<lambda>w. wt w k) ws')"
    by (metis mset_map)
  then show ?thesis
    unfolding total_weight_def by (metis sum_mset_sum_list)
qed

lemma nth_permutation:
  "mset order = mset [0..<length ws] \<Longrightarrow> mset (map (\<lambda>i. ws ! i) order) = mset ws"
proof -
  assume "mset order = mset [0..<length ws]"
  then have "mset (map (\<lambda>i. ws ! i) order) = mset (map (\<lambda>i. ws ! i) [0..<length ws])"
    by (metis mset_map)
  then show ?thesis by (simp add: map_nth)
qed

lemma cursorAll_findAll_truthy:
  assumes order: "mset order = mset [0..<length shards]"
    and found: "fst (findAll self shards v operator) = Inr ks"
    and truthy: "list_all truthy ks"
  shows "\<exists>bs. fst (cursorAll self shards v operator order) = Inr bs \<and> set (concat bs) = set ks"
proof -
  let ?tokens = "tokens_of self v"
  obtain rs shards' where p: "preFilter_all ?tokens operator shards = (rs, shards')"
    by (cases "preFilter_all ?tokens operator shards") auto
  have len: "length rs = length shards"
    using p by (induction shards arbitrary: rs shards') (auto split: prod.splits)
  from found p obtain ws where ws: "all_resolved rs = Inr ws"
    and ks: "ks = postFilter self (foldl combine [] ws) ?tokens"
    by (cases "all_resolved rs") (auto simp: findAll_def Let_def)
  have rs: "rs = map Inr ws" using ws by (rule all_resolved_Inr)
  have dws: "list_all (\<lambda>w. distinct (map fst w)) ws"
    unfolding list_all_iff
  proof
    fix w assume "w \<in> set ws"
    then have "Inr w \<in> set (fst (preFilter_all ?tokens operator shards))"
      using p rs by auto
    then show "distinct (map fst w)" by (rule preFilter_all_results)
  qed
  let ?ws' = "map (\<lambda>i. ws ! i) order"
  have lw: "length ws = length shards" using len rs by simp
  have perm: "mset ?ws' = mset ws"
    using order lw by (intro nth_permutation) simp
  have inrange: "\<And>i. i \<in> set order \<Longrightarrow> i < length ws"
  proof -
    fix i assume "i \<in> set order"
    then have "i \<in># mset order" by simp
    then have "i \<in># mset [0..<length shards]" using order by simp
    then show "i < length ws" using lw by simp
  qed
  have pend: "map (\<lambda>i. rs ! i) order = map Inr ?ws'"
    using inrange by (simp add: rs)
  have same_set: "set ?ws' = set ws"
    using perm by (metis set_mset_mset)
  have dws': "list_all (\<lambda>w. distinct (map fst w)) ?ws'"
    using dws same_set unfolding list_all_iff by blast
  have d0: "distinct (map fst ([] :: weights))" by simp
  have low: "\<forall>k c. map_of ([] :: weights) k = Some c \<longrightarrow> of_nat c < threshold self ?tokens" by simp
  from drain_hits [OF dws' d0 low] obtain bs where
    bs: "drain self ?tokens (map Inr ?ws') [] = Inr bs"
    and sbs: "set (concat bs) = {k. truthy k \<and> \<not> list_all (\<lambda>w. map_of w k = None) ?ws'
                               \<and> threshold self ?tokens \<le> of_nat (wt [] k + total_weight ?ws' k)}"
    by blast
  have "fst (cursorAll self shards v operator order)
          = drain self ?tokens (map (\<lambda>i. rs ! i) order) []"
    using p by (simp add: cursorAll_def Let_def)
  then have c: "fst (cursorAll self shards v operator order) = Inr bs"
    by (simp only: pend bs)
  have "set (concat bs) = {k. truthy k \<and> k \<in> set ks}"
    unfolding sbs ks set_findAll_weights [OF dws]
    using total_weight_mset [OF perm] same_set by (auto simp: wt_def list_all_iff)
  also have "\<dots> = set ks"
    using truthy by (auto simp: list_all_iff)
  finally show ?thesis using c by blast
qed

subsection \<open>Serialization\<close>

text \<open>
  C7. An index rebuilt from its own \<open>serialize()\<close> should answer as the index does.
  \<open>serialize\<close> gives the entries as an array and \<open>deserialize\<close> stores what it is given,
  where \<open>load\<close> builds a Map from it: the rebuilt index holds an array, and the first
  token of a query raises, where the index answers 1.
\<close>

theorem deserialize_serialized_data_fails:
  "map_sum (\<lambda>e. e) fst (serialize index_one) = Inr [(''abc'', [NumKey 1])]
   \<and> fst (ngram_find (Some (One ''abc'')) ''$eq'' index_one) = Inr [NumKey 1]
   \<and> array_entries index_one_restored = Some [(''abc'', [NumKey 1])]
   \<and> fst (ngram_find (Some (One ''abc'')) ''$eq'' index_one_restored) = Inl TypeError"
  by code_simp

subsection \<open>Errors of plan compilation\<close>

text \<open>
  The source of \<open>buildIndexSearch\<close> has no \<open>throw\<close>; what it raises is the TypeError
  of \<open>Object.entries\<close> on a sub-criteria that is \<open>null\<close> or \<open>undefined\<close>. The error
  leaves the criteria as the loop had changed it so far: a custom operator after the
  failing clause is still there, one before it is gone. An array or a string as a
  sub-criteria is walked by its indices, and a custom operator in an object below it is
  deleted.
\<close>

lemma null_sub_criteria_raises:
  "buildIndexSearch plain_call True None (Obj [(''$and'', Arr [Null]), (''$text'', Str ''x'')])
     = (Inl TypeError, Obj [(''$and'', Arr [Null]), (''$text'', Str ''x'')])
   \<and> buildIndexSearch plain_call True None (Obj [(''$text'', Str ''x''), (''$and'', Arr [Null])])
     = (Inl TypeError, Obj [(''$and'', Arr [Null])])
   \<and> buildIndexSearch plain_call True None (Obj [(''$and'', Num 5), (''$or'', Arr [Null])])
     = (Inl TypeError, Obj [(''$and'', Num 5), (''$or'', Arr [Null])])
   \<and> snd (buildIndexSearch plain_call True None
        (Obj [(''$or'', Arr [Arr [Obj [(''$text'', Str ''x''), (''a'', Num 1)]], Str ''ab''])]))
     = Obj [(''$or'', Arr [Arr [Obj [(''a'', Num 1)]], Str ''ab''])]"
  by code_simp

text \<open>
  The indices of an array or a string are no custom operators of a database, so the loop
  deletes no element of an array and no character of a string.
\<close>

lemma digit_no_dollar: "(m :: nat) < 10 \<Longrightarrow> char_of (48 + m) \<noteq> CHR ''$''"
proof
  assume m: "m < 10" and "char_of (48 + m) = CHR ''$''"
  then have "of_char (char_of (48 + m)) = (of_char CHR ''$'' :: nat)" by simp
  then have "(48 + m) mod 256 = 36" by simp
  with m show False by simp
qed

lemma string_of_nat_no_dollar: "\<not> startsWith_dollar (string_of_nat n)"
proof (induction n rule: string_of_nat.induct)
  case (1 n)
  show ?case
  proof (cases "n < 10")
    case True
    with digit_no_dollar [of n] show ?thesis
      by (subst string_of_nat.simps) (simp add: startsWith_dollar_def del: string_of_nat.simps)
  next
    case False
    with 1 have "\<not> startsWith_dollar (string_of_nat (n div 10))"
      by (simp del: string_of_nat.simps)
    with False digit_no_dollar [of "n mod 10"] show ?thesis
      by (subst string_of_nat.simps)
         (simp add: startsWith_dollar_def del: string_of_nat.simps split: list.splits)
  qed
qed

lemma index_key_not_custom: "string_of_nat n \<notin> customOperators (new_Db s)"
  using string_of_nat_no_dollar [of n] by (auto simp: new_Db_def)

text \<open>
  Whether a call raises, and what it leaves of the criteria, does not depend on the
  indices staged so far.
\<close>

lemma raised_Inl [simp]: "raised (Inl e, x) = Some e"
  by (simp add: raised_def)

lemma raised_Inr [simp]: "raised (Inr y, x) = None"
  by (simp add: raised_def)

lemma custom_not_logical: "k \<in> customOperators (new_Db s) \<Longrightarrow> k \<notin> logicalOperators"
  by (simp add: new_Db_def)

lemma plain_clause_left:
  "snd (plain_clause c p si k v ind0) = (if k \<in> customOperators (db c) then None else Some v)"
  by (simp add: plain_clause_def split: list.splits option.splits)

lemma plain_clause_operator:
  "k \<notin> customOperators (db c) \<Longrightarrow> isOperator c k \<Longrightarrow>
   plain_clause c p si k v ind0 =
     (case List.find (\<lambda>b. path b = p \<and> testIndice (indice b) k v) (schema_indices (schema (db c))) of
        None \<Rightarrow> ind0
      | Some b \<Rightarrow> AList.update (ref (indice b)) (stage si b v k) ind0, Some v)"
  by (simp add: plain_clause_def split: option.splits)

lemma plain_operator:
  "k \<notin> customOperators (db c) \<Longrightarrow> isOperator c k \<Longrightarrow>
   plain c p criteria k v st =
     (Inr (case List.find (\<lambda>b. path b = p \<and> testIndice (indice b) k v) (schema_indices (schema (db c))) of
             None \<Rightarrow> fst st
           | Some b \<Rightarrow> AList.update (ref (indice b)) (stage (fst (sort_indices c)) b v k) (fst st),
           snd st), Some v)"
  by (simp add: plain_def plain_clause_operator)

lemma clause_not_array:
  "\<not> isArray v \<Longrightarrow> isOperator c k \<Longrightarrow> clause c p criteria k v st = plain c p criteria k v st"
  by (cases v) simp_all

lemma plain_outcome:
  "raised (plain c p criteria k v st)
     = (if k \<in> customOperators (db c) \<and> is_string criteria then Some TypeError else None)"
  "snd (plain c p criteria k v st)
     = (if k \<in> customOperators (db c) \<and> \<not> is_string criteria then None else Some v)"
proof -
  obtain i v' where pc: "plain_clause c p (fst (sort_indices c)) k v (fst st) = (i, v')"
    by (cases "plain_clause c p (fst (sort_indices c)) k v (fst st)") auto
  then have v': "v' = (if k \<in> customOperators (db c) then None else Some v)"
    using plain_clause_left [of c p "fst (sort_indices c)" k v "fst st"] by simp
  show "raised (plain c p criteria k v st)
     = (if k \<in> customOperators (db c) \<and> is_string criteria then Some TypeError else None)"
    by (simp add: plain_def pc v')
  show "snd (plain c p criteria k v st)
     = (if k \<in> customOperators (db c) \<and> \<not> is_string criteria then None else Some v)"
    by (simp add: plain_def pc v')
qed

lemma clause_any_state:
  "raised (clause c p criteria k v st) = raised (clause c p criteria k v st')
   \<and> snd (clause c p criteria k v st) = snd (clause c p criteria k v st')"
proof (cases v)
  case (Arr vs)
  obtain r vs' where "compile_all c vs = (r, vs')"
    by (cases "compile_all c vs") auto
  with Arr show ?thesis
    by (cases r) (simp_all add: plain_outcome)
next
  case (Obj kv)
  obtain r v' where "buildIndexSearch c False (Some k) (Obj kv) = (r, v')"
    by (cases "buildIndexSearch c False (Some k) (Obj kv)") auto
  with Obj show ?thesis
    by (cases r) (simp_all add: plain_outcome)
qed (simp_all add: plain_outcome)

lemma clause_same_kind:
  "is_string criteria = is_string criteria' \<Longrightarrow> clause c p criteria k v st = clause c p criteria' k v st"
  by (cases v) (simp_all add: plain_def)

lemma walk_same_kind:
  "is_string criteria = is_string criteria' \<Longrightarrow> walk c p criteria es st = walk c p criteria' es st"
  by (induction es arbitrary: st)
     (simp_all add: clause_same_kind [of criteria criteria'] split: prod.splits sum.splits)

lemma raised_None: "raised x = None \<longleftrightarrow> (\<exists>y. fst x = Inr y)"
  by (cases "fst x") (simp_all add: raised_def)

lemma raised_Some: "raised x = Some e \<longleftrightarrow> fst x = Inl e"
  by (cases "fst x") (simp_all add: raised_def)

lemma walk_any_state:
  "raised (walk c p criteria es st) = raised (walk c p criteria es st')
   \<and> snd (walk c p criteria es st) = snd (walk c p criteria es st')"
proof (induction es arbitrary: st st')
  case Nil
  then show ?case by simp
next
  case (Cons e es)
  obtain r v1 where c1: "clause c p criteria (fst e) (snd e) st = (r, v1)"
    by (cases "clause c p criteria (fst e) (snd e) st") auto
  obtain r' v1' where c2: "clause c p criteria (fst e) (snd e) st' = (r', v1')"
    by (cases "clause c p criteria (fst e) (snd e) st'") auto
  from clause_any_state [of c p criteria "fst e" "snd e" st st'] c1 c2
  have v: "v1' = v1" and rr: "raised (r, v1) = raised (r', v1)" by (simp_all add: raised_def)
  show ?case
  proof (cases r)
    case (Inl err)
    with rr have "r' = Inl err" by (cases r') simp_all
    with Inl c1 c2 v show ?thesis by simp
  next
    case (Inr st1)
    with rr obtain st1' where r': "r' = Inr st1'" by (cases r') simp_all
    obtain q left where w1: "walk c p criteria es st1 = (q, left)"
      by (cases "walk c p criteria es st1") auto
    obtain q' left' where w2: "walk c p criteria es st1' = (q', left')"
      by (cases "walk c p criteria es st1'") auto
    from Cons.IH [of st1 st1'] w1 w2 have "left' = left" and "raised (q, left) = raised (q', left)"
      by (simp_all add: raised_def)
    then have "raised (q, (fst e, v1) # left) = raised (q', (fst e, v1) # left')"
      by (simp add: raised_def)
    with Inr r' c1 c2 v w1 w2 \<open>left' = left\<close> show ?thesis by simp
  qed
qed

lemma walk_append:
  "walk c p criteria (xs @ ys) st =
     (case walk c p criteria xs st of
        (Inl e, left) \<Rightarrow> (Inl e, left @ untouched ys)
      | (Inr st1, left) \<Rightarrow> (case walk c p criteria ys st1 of (r, left2) \<Rightarrow> (r, left @ left2)))"
proof (induction xs arbitrary: st)
  case Nil
  then show ?case by (simp split: prod.splits)
next
  case (Cons e xs)
  obtain r v1 where c1: "clause c p criteria (fst e) (snd e) st = (r, v1)"
    by (cases "clause c p criteria (fst e) (snd e) st") auto
  show ?case
  proof (cases r)
    case (Inl err)
    with c1 show ?thesis by (simp add: untouched_def)
  next
    case (Inr st1)
    with c1 Cons.IH [of st1] show ?thesis
      by (simp split: prod.splits sum.splits)
  qed
qed

lemma raised_buildIndexSearch:
  "raised (buildIndexSearch c isRoot p (Obj kv)) = raised (walk c p (Obj kv) kv ([], []))"
  by (simp add: Object_entries_def raised_def split: prod.splits sum.splits)

lemma raised_walk_append:
  "raised (walk c p criteria (xs @ ys) st)
     = (case raised (walk c p criteria xs st) of Some e \<Rightarrow> Some e
        | None \<Rightarrow> raised (walk c p criteria ys st'))"
proof (cases "walk c p criteria xs st")
  case (Pair r left)
  show ?thesis
  proof (cases r)
    case (Inl e)
    with Pair show ?thesis by (simp add: walk_append)
  next
    case (Inr st1)
    have "raised (walk c p criteria ys st1) = raised (walk c p criteria ys st')"
      using walk_any_state [of c p criteria ys st1 st'] by simp
    moreover have "raised (walk c p criteria (xs @ ys) st) = raised (walk c p criteria ys st1)"
      using Pair Inr by (simp add: walk_append raised_def split: prod.splits)
    ultimately show ?thesis using Pair Inr by simp
  qed
qed

subsection \<open>A logical combinator without an array\<close>

lemma find_plan_error:
  "fst (Db_find mingo_Query indexed primary_batches c criteria) = Inl (PlanError e)
     \<longleftrightarrow> raised (buildIndexSearch c True None criteria) = Some e"
proof (cases "buildIndexSearch c True None criteria")
  case (Pair r criteria')
  then show ?thesis
    by (cases r) (simp_all add: Db_find_def Let_def split: sum.splits)
qed

text \<open>
  C8, as the code has it. Plan compilation does not check the value of \<open>$and\<close> or
  \<open>$or\<close>. When it is not an array, the guard \<open>isArray(value)\<close> sends the clause to the
  other branches, and the key is taken for an operator at the path of the context (mingo's
  \<open>isOperator\<close> accepts the two names): the loop stages the first binding of that path
  whose capability check accepts the key and the value, or stages nothing, leaves the
  entry in the criteria and raises no error. So the compilation of a criteria with such a
  clause raises exactly when the compilation of the criteria without the clause does, and
  with the same error, and this is when \<open>find\<close> fails before it reaches the predicate
  matcher. A criteria that is only such a clause compiles to a plan and is left as it is,
  and \<open>find\<close> rejects it exactly when the constructor of the predicate matcher does,
  with the error of that constructor.
\<close>

theorem combinator_without_array:
  assumes "k \<in> logicalOperators" and "\<not> isArray v" and "isOperator c k" and "db c = new_Db s"
  shows "clause c ctx_path criteria k v st =
           (Inr (case List.find (\<lambda>b. path b = ctx_path \<and> testIndice (indice b) k v)
                        (schema_indices (schema (db c))) of
                   None \<Rightarrow> fst st
                 | Some b \<Rightarrow> AList.update (ref (indice b)) (stage (fst (sort_indices c)) b v k) (fst st),
                 snd st), Some v)
       \<and> raised (buildIndexSearch c isRoot ctx_path (Obj (pre @ (k, v) # post)))
           = raised (buildIndexSearch c isRoot ctx_path (Obj (pre @ post)))
       \<and> (fst (Db_find mingo_Query indexed primary_batches c (Obj (pre @ (k, v) # post))) = Inl (PlanError e)
            \<longleftrightarrow> raised (buildIndexSearch c True None (Obj (pre @ post))) = Some e)
       \<and> raised (buildIndexSearch c isRoot ctx_path (Obj [(k, v)])) = None
       \<and> snd (buildIndexSearch c isRoot ctx_path (Obj [(k, v)])) = Obj [(k, v)]
       \<and> (fst (Db_find mingo_Query indexed primary_batches c (Obj [(k, v)])) = Inl r
            \<longleftrightarrow> (\<exists>e. r = QueryError e \<and> mingo_Query (Obj [(k, v)]) = Inl e))"
proof -
  have nc: "k \<notin> customOperators (db c)"
    using assms(1,4) custom_not_logical [of k s] by auto
  have cl: "\<And>p criteria st. clause c p criteria k v st =
           (Inr (case List.find (\<lambda>b. path b = p \<and> testIndice (indice b) k v)
                        (schema_indices (schema (db c))) of
                   None \<Rightarrow> fst st
                 | Some b \<Rightarrow> AList.update (ref (indice b)) (stage (fst (sort_indices c)) b v k) (fst st),
                 snd st), Some v)"
    using clause_not_array [OF assms(2,3)] plain_operator [OF nc assms(3)] by simp
  have one: "\<And>p criteria es st. raised (walk c p criteria ((k, v) # es) st)
                = raised (walk c p criteria es st)"
  proof -
    fix p criteria es st
    obtain st1 where "clause c p criteria k v st = (Inr st1, Some v)"
      using cl by blast
    then have "raised (walk c p criteria ((k, v) # es) st) = raised (walk c p criteria es st1)"
      by (simp add: raised_def split: prod.splits)
    then show "raised (walk c p criteria ((k, v) # es) st) = raised (walk c p criteria es st)"
      using walk_any_state [of c p criteria es st1 st] by simp
  qed
  have k1: "is_string (Obj (pre @ (k, v) # post)) = is_string (Obj (pre @ post))"
    by (simp add: is_string_def)
  have b: "\<And>isRoot p. raised (buildIndexSearch c isRoot p (Obj (pre @ (k, v) # post)))
           = raised (buildIndexSearch c isRoot p (Obj (pre @ post)))"
  proof -
    fix isRoot p
    show "raised (buildIndexSearch c isRoot p (Obj (pre @ (k, v) # post)))
           = raised (buildIndexSearch c isRoot p (Obj (pre @ post)))"
      unfolding raised_buildIndexSearch walk_same_kind [OF k1]
      unfolding raised_walk_append [of c p "Obj (pre @ post)" pre _ "([], [])" "([], [])"]
      by (simp only: one)
  qed
  have pe: "fst (Db_find mingo_Query indexed primary_batches c (Obj (pre @ (k, v) # post))) = Inl (PlanError e)
            \<longleftrightarrow> raised (buildIndexSearch c True None (Obj (pre @ post))) = Some e"
    unfolding find_plan_error by (simp only: b)
  have ok: "\<And>p. \<exists>st1. walk c p (Obj [(k, v)]) [(k, v)] ([], []) = (Inr st1, [(k, Some v)])"
    using clause_not_array [OF assms(2,3)] plain_operator [OF nc assms(3)] by simp
  obtain st1 where w1: "walk c ctx_path (Obj [(k, v)]) [(k, v)] ([], []) = (Inr st1, [(k, Some v)])"
    using ok by blast
  obtain st0 where w0: "walk c None (Obj [(k, v)]) [(k, v)] ([], []) = (Inr st0, [(k, Some v)])"
    using ok by blast
  have c1: "raised (buildIndexSearch c isRoot ctx_path (Obj [(k, v)])) = None"
    unfolding raised_buildIndexSearch by (simp add: w1 del: walk.simps)
  have c2: "snd (buildIndexSearch c isRoot ctx_path (Obj [(k, v)])) = Obj [(k, v)]"
    by (simp add: Object_entries_def w1 put_entries_def del: walk.simps)
  have f: "fst (Db_find mingo_Query indexed primary_batches c (Obj [(k, v)])) = Inl r
            \<longleftrightarrow> (\<exists>e. r = QueryError e \<and> mingo_Query (Obj [(k, v)]) = Inl e)"
    unfolding Db_find_def
    by (auto simp: Object_entries_def w0 put_entries_def Let_def simp del: walk.simps split: sum.splits)
  show ?thesis using cl [of ctx_path criteria st] b [of isRoot ctx_path] pe c1 c2 f by blast
qed

theorem combinator_without_array_witness:
  "''$and'' \<in> logicalOperators \<and> \<not> isArray (Num 5) \<and> isOperator plain_call ''$and''
   \<and> raised (buildIndexSearch plain_call True None
               (Obj [(''continent'', Str ''Africa''), (''$and'', Num 5), (''$or'', Arr [Null])]))
       = raised (buildIndexSearch plain_call True None
               (Obj [(''continent'', Str ''Africa''), (''$or'', Arr [Null])]))
   \<and> raised (buildIndexSearch plain_call True None (Obj [(''$and'', Num 5)])) = None
   \<and> snd (buildIndexSearch plain_call True None (Obj [(''$and'', Num 5)])) = Obj [(''$and'', Num 5)]"
proof -
  have l: "''$and'' \<in> logicalOperators"
    by (simp add: logicalOperators_def)
  have a: "\<not> isArray (Num 5)"
    by simp
  have o: "isOperator plain_call ''$and''"
    by (simp add: plain_call_def startsWith_dollar_def)
  have d: "db plain_call = new_Db countries_schema"
    by (simp add: plain_call_def)
  from combinator_without_array [OF l a o d, where ctx_path = None and isRoot = True
      and pre = "[(''continent'', Str ''Africa'')]" and post = "[(''$or'', Arr [Null])]"]
  have "raised (buildIndexSearch plain_call True None
               (Obj ([(''continent'', Str ''Africa'')] @ (''$and'', Num 5) # [(''$or'', Arr [Null])])))
       = raised (buildIndexSearch plain_call True None
               (Obj ([(''continent'', Str ''Africa'')] @ [(''$or'', Arr [Null])])))
     \<and> raised (buildIndexSearch plain_call True None (Obj [(''$and'', Num 5)])) = None
     \<and> snd (buildIndexSearch plain_call True None (Obj [(''$and'', Num 5)])) = Obj [(''$and'', Num 5)]"
    by blast
  then show ?thesis using l a o by simp
qed

text \<open>
  C8, as the claim states it, fails: the criteria \<open>{$and: 5}\<close> compiles, with no error,
  to the plan of the empty criteria, a missed plan.
\<close>

theorem malformed_combinator_compiles:
  "buildIndexSearch plain_call True None (Obj [(''$and'', Num 5)])
     = (Inr \<lparr> result = Intersect [], missed = True, greed = False, paths = {} \<rparr>,
        Obj [(''$and'', Num 5)])
   \<and> fst (buildIndexSearch plain_call True None (Obj [(''$and'', Num 5)]))
     = fst (buildIndexSearch plain_call True None (Obj []))"
  by code_simp

subsection \<open>The caller's criteria\<close>

lemma custom_member:
  "b \<in> set (schema_indices s) \<Longrightarrow> path b = Some k \<Longrightarrow> startsWith_dollar k
    \<Longrightarrow> k \<notin> comparableOperators \<Longrightarrow> k \<notin> logicalOperators \<Longrightarrow> k \<in> customOperators (new_Db s)"
  by (force simp: new_Db_def)

lemma clause_custom:
  "k \<in> customOperators (db c) \<Longrightarrow> k \<notin> logicalOperators \<Longrightarrow> \<not> is_string criteria
    \<Longrightarrow> snd (clause c p criteria k v st) = None"
  by (cases v) (simp_all add: plain_outcome)

lemma walk_Cons_returned:
  assumes "raised (walk c p criteria (e # es) st) = None"
  obtains st1 v1 st2 left where "clause c p criteria (fst e) (snd e) st = (Inr st1, v1)"
    and "walk c p criteria es st1 = (Inr st2, left)"
    and "walk c p criteria (e # es) st = (Inr st2, (fst e, v1) # left)"
proof -
  obtain r v1 where c1: "clause c p criteria (fst e) (snd e) st = (r, v1)"
    by (cases "clause c p criteria (fst e) (snd e) st") auto
  show ?thesis
  proof (cases r)
    case (Inl err)
    with c1 assms show ?thesis by simp
  next
    case (Inr st1)
    obtain q left where w: "walk c p criteria es st1 = (q, left)"
      by (cases "walk c p criteria es st1") auto
    with c1 Inr assms obtain st2 where "q = Inr st2"
      by (cases q) simp_all
    with c1 Inr w that show ?thesis by simp
  qed
qed

lemma walk_custom_deleted:
  assumes "k \<in> customOperators (db c)" and "k \<notin> logicalOperators" and "\<not> is_string criteria"
  shows "raised (walk c p criteria es st) = None \<Longrightarrow> (k, Some x) \<notin> set (snd (walk c p criteria es st))"
proof (induction es arbitrary: st)
  case Nil
  then show ?case by simp
next
  case (Cons e es)
  from Cons.prems obtain st1 v1 st2 left where
    c1: "clause c p criteria (fst e) (snd e) st = (Inr st1, v1)"
    and w: "walk c p criteria es st1 = (Inr st2, left)"
    and all: "walk c p criteria (e # es) st = (Inr st2, (fst e, v1) # left)"
    by (rule walk_Cons_returned)
  have a: "(fst e, v1) \<noteq> (k, Some x)"
  proof (cases "fst e = k")
    case True
    with clause_custom [OF assms, of p "snd e" st] c1 show ?thesis by simp
  next
    case False
    then show ?thesis by simp
  qed
  have b: "(k, Some x) \<notin> set left"
    using Cons.IH [of st1] w by simp
  show ?case
    unfolding all using a b by auto
qed

lemma put_entries_keys:
  "put_entries (Obj kv) left = Obj kv' \<Longrightarrow> k \<in> fst ` set kv' \<Longrightarrow> \<exists>x. (k, Some x) \<in> set left"
  by (fastforce simp: put_entries_def split: option.splits)

lemma find_returns_compiled:
  "fst (Db_find mingo_Query indexed primary_batches c criteria) = Inr res
    \<Longrightarrow> raised (buildIndexSearch c True None criteria) = None"
  by (cases "buildIndexSearch c True None criteria"; cases "fst (buildIndexSearch c True None criteria)")
     (simp_all add: Db_find_def)

lemma find_leaves_compiled:
  "snd (Db_find mingo_Query indexed primary_batches c criteria) = snd (buildIndexSearch c True None criteria)"
  by (simp add: Db_find_def Let_def split: prod.splits sum.splits)

text \<open>
  C10. A key of the criteria that is a custom operator of the database (the branch of
  the source that deletes is \<open>this.customOperators.has(key)\<close>: the path of a binding of
  the schema that starts with \<open>$\<close> and is not the name of a comparison or logical
  operator, as the constructor of \<open>Db\<close> reads them off) is deleted from the caller's
  criteria object: when plan compilation returns, the object that \<open>buildIndexSearch\<close>
  leaves, which is the object that \<open>find\<close> leaves, no longer has the key and is not what
  it was. \<open>find\<close> returns only if plan compilation returned
  (\<open>find_returns_compiled\<close>).
\<close>

theorem find_deletes_custom_operator:
  assumes "b \<in> set (schema_indices s)" and "path b = Some k" and "startsWith_dollar k"
    and "k \<notin> comparableOperators" and "k \<notin> logicalOperators"
    and "db c = new_Db s" and "k \<in> fst ` set kv"
    and "raised (buildIndexSearch c True None (Obj kv)) = None"
  shows "\<exists>kv'. snd (buildIndexSearch c True None (Obj kv)) = Obj kv'
            \<and> snd (Db_find mingo_Query indexed primary_batches c (Obj kv)) = Obj kv'
            \<and> k \<notin> fst ` set kv' \<and> kv' \<noteq> kv"
proof -
  have cu: "k \<in> customOperators (db c)"
    using custom_member [OF assms(1-5)] assms(6) by simp
  have ns: "\<not> is_string (Obj kv)"
    by (simp add: is_string_def)
  have r: "raised (walk c None (Obj kv) kv ([], [])) = None"
    using assms(8) by (simp only: raised_buildIndexSearch)
  obtain q left where w: "walk c None (Obj kv) kv ([], []) = (q, left)"
    by (cases "walk c None (Obj kv) kv ([], [])") auto
  with r obtain st where q: "q = Inr st"
    by (cases q) simp_all
  have gone: "\<And>x. (k, Some x) \<notin> set left"
    using walk_custom_deleted [OF cu assms(5) ns r] w by simp
  have bs: "snd (buildIndexSearch c True None (Obj kv)) = put_entries (Obj kv) left"
    using w q by (simp add: Object_entries_def del: walk.simps)
  obtain kv' where kv': "put_entries (Obj kv) left = Obj kv'"
    by (simp add: put_entries_def)
  have nk: "k \<notin> fst ` set kv'"
    using put_entries_keys [OF kv'] gone by blast
  have "kv' \<noteq> kv"
    using nk assms(7) by blast
  with bs kv' nk find_leaves_compiled [of mingo_Query indexed primary_batches c "Obj kv"]
  show ?thesis by simp
qed

theorem find_deletes_custom_operator_witness:
  "raised (buildIndexSearch plain_call True None
             (Obj [(''$text'', Str ''Angoli''), (''continent'', Str ''Africa'')])) = None
   \<and> snd (Db_find literal_Query (\<lambda>s c. []) [[angola]] plain_call
          (Obj [(''$text'', Str ''Angoli''), (''continent'', Str ''Africa'')]))
     = Obj [(''continent'', Str ''Africa'')]
   \<and> (\<exists>kv'. snd (Db_find literal_Query (\<lambda>s c. []) [[angola]] plain_call
          (Obj [(''$text'', Str ''Angoli''), (''continent'', Str ''Africa'')])) = Obj kv'
        \<and> ''$text'' \<notin> fst ` set kv')"
proof -
  have e: "snd (Db_find literal_Query (\<lambda>s c. []) [[angola]] plain_call
          (Obj [(''$text'', Str ''Angoli''), (''continent'', Str ''Africa'')]))
     = Obj [(''continent'', Str ''Africa'')]"
    by code_simp
  have r: "raised (buildIndexSearch plain_call True None
             (Obj [(''$text'', Str ''Angoli''), (''continent'', Str ''Africa'')])) = None"
    by code_simp
  have m: "\<lparr> indice = text_index, path = Some ''$text'' \<rparr> \<in> set (schema_indices countries_schema)"
    by (simp add: countries_schema_def)
  have p: "path \<lparr> indice = text_index, path = Some ''$text'' \<rparr> = Some ''$text''"
    by simp
  have d: "startsWith_dollar ''$text''" "''$text'' \<notin> comparableOperators" "''$text'' \<notin> logicalOperators"
    by (simp_all add: startsWith_dollar_def comparableOperators_def logicalOperators_def)
  have c: "db plain_call = new_Db countries_schema"
    by (simp add: plain_call_def)
  have i: "''$text'' \<in> fst ` set [(''$text'', Str ''Angoli''), (''continent'', Str ''Africa'')]"
    by simp
  from find_deletes_custom_operator [OF m p d c i r, of literal_Query "\<lambda>s c. []" "[[angola]]"]
  have "\<exists>kv'. snd (Db_find literal_Query (\<lambda>s c. []) [[angola]] plain_call
          (Obj [(''$text'', Str ''Angoli''), (''continent'', Str ''Africa'')])) = Obj kv'
        \<and> ''$text'' \<notin> fst ` set kv'"
    by blast
  with e r show ?thesis by blast
qed

subsection \<open>Sharding\<close>

lemma lookup_update: "lookup (AList.update k v m) t = (if t = k then v else lookup m t)"
  by (simp add: lookup_def update_conv')

lemma lookup_absent: "t \<notin> fst ` set m \<Longrightarrow> lookup m t = []"
  using map_of_eq_None_iff [of m t] by (simp add: lookup_def)

lemma lookup_Nil [simp]: "lookup [] t = []"
  by (simp add: lookup_def)

lemma entries_total_update_new:
  "k \<notin> fst ` set m \<Longrightarrow> entries_total (AList.update k v m) = entries_total m + length v"
  by (induction m) (auto simp: entries_total_def)

lemma entries_total_zero: "entries_total m = 0 \<Longrightarrow> lookup m t = []"
  by (induction m) (auto simp: entries_total_def lookup_def)

lemma keys_update: "fst ` set (AList.update k v m) = insert k (fst ` set m)"
  by (induction m) auto

lemma deserialize_indices:
  "indices (fst (deserialize (MapObj m) (OptionsObj opts) c)) = MapObj m"
  by (simp add: deserialize_def new_NgramIndice_def Let_def split: prod.splits option.splits)

lemma shard_facts:
  assumes "deserialize (MapObj m) (OptionsObj opts) c = (shard, c')"
  shows "posting shard t = lookup m t" "entry_count shard = entries_total m"
    "tokens_in shard = fst ` set m" "is_map shard = distinct (map fst m)"
  using deserialize_indices [of m opts c] assms
  by (simp_all add: posting_def entry_count_def tokens_in_def is_map_def map_entries_def)


lemma concat_postings_empty:
  "list_all (\<lambda>s. posting s t = []) R \<Longrightarrow> concat (map (\<lambda>s. posting s t) R) = []"
  by (induction R) auto

lemma split_value_fresh:
  assumes "1 \<le> cs"
  shows "\<exists>R c'. split_value cs opts k v (0, [], res, c) = Some (0, [], res @ R, c')
           \<and> concat (map (\<lambda>s. posting s k) R) = v
           \<and> list_all (\<lambda>s. (\<forall>t. t \<noteq> k \<longrightarrow> posting s t = []) \<and> entry_count s \<le> cs
                            \<and> tokens_in s \<subseteq> {k} \<and> is_map s) R"
proof (induction v arbitrary: res c rule: length_induct)
  case (1 v)
  show ?case
  proof (cases "v = []")
    case True
    have "split_value cs opts k v (0, [], res, c) = Some (0, [], res @ [], c)"
      using True by (subst split_value.simps) simp
    then show ?thesis using True by (intro exI [of _ "[]"] exI [of _ c]) simp
  next
    case False
    obtain shard c1 where d:
      "deserialize (MapObj (AList.update k (take cs v) [])) (OptionsObj opts) c = (shard, c1)"
      by (cases "deserialize (MapObj (AList.update k (take cs v) [])) (OptionsObj opts) c") auto
    have less: "length (drop cs v) < length v"
      using False assms by simp
    from 1 [rule_format, OF less, of "res @ [shard]" c1] obtain R c' where
      ih: "split_value cs opts k (drop cs v) (0, [], (res @ [shard]), c1) = Some (0, [], (res @ [shard]) @ R, c')"
        "concat (map (\<lambda>s. posting s k) R) = drop cs v"
        "list_all (\<lambda>s. (\<forall>t. t \<noteq> k \<longrightarrow> posting s t = []) \<and> entry_count s \<le> cs
                         \<and> tokens_in s \<subseteq> {k} \<and> is_map s) R"
      by blast
    have u: "split_value cs opts k v (0, [], res, c)
               = split_value cs opts k (drop cs v) (0, [], res @ [shard], c1)"
      using False d by (subst split_value.simps) simp
    have p: "\<And>t. posting shard t = (if t = k then take cs v else [])"
      using shard_facts(1) [OF d] by (simp add: lookup_def)
    have e: "entry_count shard \<le> cs"
      using shard_facts(2) [OF d] by (simp add: entries_total_def)
    have t: "tokens_in shard \<subseteq> {k}" "is_map shard"
      using shard_facts(3,4) [OF d] by simp_all
    show ?thesis
      using u ih p e t by (intro exI [of _ "shard # R"] exI [of _ c']) simp
  qed
qed

lemma split_value_spills:
  assumes "1 \<le> cs" "sz \<le> cs" "v \<noteq> []" "k \<notin> fst ` set m" "distinct (map fst m)" "entries_total m = sz"
  shows "\<exists>R c'. split_value cs opts k v (sz, m, res, c) = Some (0, [], res @ R, c')
           \<and> (\<forall>t. concat (map (\<lambda>s. posting s t) R) = lookup m t @ (if t = k then v else []))
           \<and> list_all (\<lambda>s. entry_count s \<le> cs \<and> tokens_in s \<subseteq> insert k (fst ` set m) \<and> is_map s) R"
proof -
  obtain shard c1 where d:
    "deserialize (MapObj (AList.update k (take (cs - sz) v) m)) (OptionsObj opts) c = (shard, c1)"
    by (cases "deserialize (MapObj (AList.update k (take (cs - sz) v) m)) (OptionsObj opts) c") auto
  from split_value_fresh [OF assms(1), of opts k "drop (cs - sz) v" "res @ [shard]" c1] obtain R c' where
    f: "split_value cs opts k (drop (cs - sz) v) (0, [], (res @ [shard]), c1) = Some (0, [], (res @ [shard]) @ R, c')"
      "concat (map (\<lambda>s. posting s k) R) = drop (cs - sz) v"
      "list_all (\<lambda>s. (\<forall>t. t \<noteq> k \<longrightarrow> posting s t = []) \<and> entry_count s \<le> cs
                       \<and> tokens_in s \<subseteq> {k} \<and> is_map s) R"
    by blast
  have u: "split_value cs opts k v (sz, m, res, c)
             = split_value cs opts k (drop (cs - sz) v) (0, [], res @ [shard], c1)"
    using assms(3) d by (subst split_value.simps) simp
  have p: "\<And>t. posting shard t = (if t = k then take (cs - sz) v else lookup m t)"
    using shard_facts(1) [OF d] by (simp add: lookup_update)
  have e: "entry_count shard \<le> cs"
    using shard_facts(2) [OF d] entries_total_update_new [OF assms(4), of "take (cs - sz) v"] assms(2,6)
    by simp
  have t: "tokens_in shard \<subseteq> insert k (fst ` set m)" "is_map shard"
    using shard_facts(3,4) [OF d] assms(5) by (simp_all add: keys_update distinct_update)
  have k0: "lookup m k = []"
    using assms(4) by (rule lookup_absent)
  have others: "\<And>t. t \<noteq> k \<Longrightarrow> concat (map (\<lambda>s. posting s t) R) = []"
    using f(3) by (intro concat_postings_empty) (simp add: list_all_iff)
  have all: "\<forall>t. concat (map (\<lambda>s. posting s t) (shard # R)) = lookup m t @ (if t = k then v else [])"
    using p f(2) k0 others by simp
  have bounds: "list_all (\<lambda>s. entry_count s \<le> cs \<and> tokens_in s \<subseteq> insert k (fst ` set m) \<and> is_map s) (shard # R)"
    using e t f(3) by (auto simp: list_all_iff)
  show ?thesis
    using u f(1) all bounds by (intro exI [of _ "shard # R"] exI [of _ c']) simp
qed

lemma spread_inv_step:
  assumes cs: "1 \<le> cs" and inv: "spread_inv cs ind P (sz, m, res, c)"
    and k: "k \<notin> P" and v: "map_of ind k = Some v"
  shows "\<exists>st'. spread_keys cs opts ind [k] (sz, m, res, c) = Some (Inr st') \<and> spread_inv cs ind (insert k P) st'"
proof -
  from inv have d: "distinct (map fst m)" and e: "entries_total m = sz" and le: "sz \<le> cs"
    and sub: "fst ` set m \<subseteq> P"
    and post: "\<And>t. concat (map (\<lambda>s. posting s t) res) @ lookup m t = (if t \<in> P then lookup ind t else [])"
    and shards: "list_all (\<lambda>s. entry_count s \<le> cs \<and> tokens_in s \<subseteq> P \<and> is_map s) res"
    by (simp_all add: spread_inv_def)
  have knew: "k \<notin> fst ` set m" using sub k by blast
  have lk: "lookup ind k = v" using v by (simp add: lookup_def)
  have k0: "concat (map (\<lambda>s. posting s k) res) = []" "lookup m k = []"
    using post [of k] k by simp_all
  have shards': "list_all (\<lambda>s. entry_count s \<le> cs \<and> tokens_in s \<subseteq> insert k P \<and> is_map s) res"
    using shards by (auto simp: list_all_iff)
  show ?thesis
  proof (cases "sz + length v \<le> cs")
    case True
    have r: "spread_keys cs opts ind [k] (sz, m, res, c) = Some (Inr (sz + length v, AList.update k v m, res, c))"
      using v True by simp
    have p: "\<And>t. concat (map (\<lambda>s. posting s t) res) @ lookup (AList.update k v m) t
                 = (if t \<in> insert k P then lookup ind t else [])"
      using post k0 lk k by (auto simp: lookup_update)
    have "spread_inv cs ind (insert k P) (sz + length v, AList.update k v m, res, c)"
      unfolding spread_inv_def
      using d e True sub p shards' entries_total_update_new [OF knew, of v]
      by (auto simp: keys_update distinct_update)
    with r show ?thesis by blast
  next
    case False
    then have ne: "v \<noteq> []" using le by auto
    from split_value_spills [OF cs le ne knew d e, of opts res c] obtain R c' where
      s: "split_value cs opts k v (sz, m, res, c) = Some (0, [], res @ R, c')"
      and sp: "\<And>t. concat (map (\<lambda>s. posting s t) R) = lookup m t @ (if t = k then v else [])"
      and sb: "list_all (\<lambda>s. entry_count s \<le> cs \<and> tokens_in s \<subseteq> insert k (fst ` set m) \<and> is_map s) R"
      by blast
    have r: "spread_keys cs opts ind [k] (sz, m, res, c) = Some (Inr (0, [], res @ R, c'))"
      using v False s by simp
    have p: "\<And>t. concat (map (\<lambda>s. posting s t) (res @ R)) @ lookup [] t
                 = (if t \<in> insert k P then lookup ind t else [])"
    proof -
      fix t
      have "concat (map (\<lambda>s. posting s t) (res @ R)) @ lookup [] t
              = (concat (map (\<lambda>s. posting s t) res) @ lookup m t) @ (if t = k then v else [])"
        using sp [of t] by simp
      also have "\<dots> = (if t \<in> insert k P then lookup ind t else [])"
        using post [of t] k lk by auto
      finally show "concat (map (\<lambda>s. posting s t) (res @ R)) @ lookup [] t
                 = (if t \<in> insert k P then lookup ind t else [])" .
    qed
    have sb': "list_all (\<lambda>s. entry_count s \<le> cs \<and> tokens_in s \<subseteq> insert k P \<and> is_map s) (res @ R)"
    proof -
      have mono: "insert k (fst ` set m) \<subseteq> insert k P"
        using sub by blast
      have "\<And>s. s \<in> set R \<Longrightarrow> entry_count s \<le> cs \<and> tokens_in s \<subseteq> insert k P \<and> is_map s"
      proof -
        fix s assume "s \<in> set R"
        with sb have "entry_count s \<le> cs" "tokens_in s \<subseteq> insert k (fst ` set m)" "is_map s"
          by (simp_all add: list_all_iff)
        with mono show "entry_count s \<le> cs \<and> tokens_in s \<subseteq> insert k P \<and> is_map s"
          by (meson subset_trans)
      qed
      then have "list_all (\<lambda>s. entry_count s \<le> cs \<and> tokens_in s \<subseteq> insert k P \<and> is_map s) R"
        by (simp add: list_all_iff)
      with shards' show ?thesis by simp
    qed
    have "spread_inv cs ind (insert k P) (0, [], res @ R, c')"
      unfolding spread_inv_def using p sb' by (simp add: entries_total_def)
    with r show ?thesis by blast
  qed
qed

lemma spread_keys_Cons:
  "spread_keys cs opts ind [k] st = Some (Inr st') \<Longrightarrow>
   spread_keys cs opts ind (k # ks) st = spread_keys cs opts ind ks st'"
  by (cases st) (auto split: option.splits if_splits)

lemma spread_keys_inv:
  assumes "1 \<le> cs"
  shows "spread_inv cs ind P st \<Longrightarrow> distinct ks \<Longrightarrow> set ks \<inter> P = {} \<Longrightarrow> set ks \<subseteq> fst ` set ind
    \<Longrightarrow> \<exists>st'. spread_keys cs opts ind ks st = Some (Inr st') \<and> spread_inv cs ind (P \<union> set ks) st'"
proof (induction ks arbitrary: P st)
  case Nil
  then show ?case by simp
next
  case (Cons k ks)
  obtain sz m res c where st: "st = (sz, m, res, c)" by (cases st) auto
  from Cons.prems have kP: "k \<notin> P" and kin: "k \<in> fst ` set ind" by auto
  then obtain v where v: "map_of ind k = Some v"
    using map_of_eq_None_iff [of ind k] by (cases "map_of ind k") auto
  from spread_inv_step [OF assms Cons.prems(1) [unfolded st] kP v, of opts] obtain st1 where
    s1: "spread_keys cs opts ind [k] st = Some (Inr st1)" and i1: "spread_inv cs ind (insert k P) st1"
    unfolding st by blast
  have "set ks \<inter> insert k P = {}" "distinct ks" "set ks \<subseteq> fst ` set ind"
    using Cons.prems by auto
  from Cons.IH [OF i1 this(2) this(1) this(3)] obtain st' where
    "spread_keys cs opts ind ks st1 = Some (Inr st')" "spread_inv cs ind (insert k P \<union> set ks) st'"
    by blast
  then show ?case
    using spread_keys_Cons [OF s1, of ks] by auto
qed

lemma map_entries_Some: "map_entries idx = Some m \<Longrightarrow> indices idx = MapObj m"
  by (cases "indices idx") (simp_all add: map_entries_def)

text \<open>
  \<open>spread\<close> of the source (src/src/ngram.indice.ts) partitions the posting lists. For an
  index whose field \<open>indices\<close> is a Map (its keys are distinct) and a chunk size of at
  least 1, it returns, with no error, shards such that for every token the posting lists
  of the shards, one after the other, are the posting list of the index: every entry is
  in exactly one shard, in its order. No shard holds more than \<open>chunkSize\<close> entries, let
  alone \<open>chunkSize * 10\<close>; every shard holds a Map, and the shards have no token that the
  index does not have.
\<close>

lemma spread_partitions_postings:
  assumes "1 \<le> chunkSize" and "indices idx = MapObj ind" and "distinct (map fst ind)"
  shows "\<exists>shards c. spread chunkSize idx id_counter = Some (Inr (shards, c))
           \<and> (\<forall>t. concat (map (\<lambda>s. posting s t) shards) = posting idx t)
           \<and> list_all (\<lambda>s. entry_count s \<le> chunkSize \<and> entry_count s \<le> chunkSize * 10) shards
           \<and> list_all is_map shards
           \<and> \<Union> (set (map tokens_in shards)) \<subseteq> tokens_in idx"
proof -
  let ?opts = "options_without_id (options idx)"
  let ?P = "fst ` set ind"
  have i0: "spread_inv chunkSize ind {} (0, [], [], id_counter)"
    by (simp add: spread_inv_def entries_total_def)
  have ks: "distinct (keys ind)" "set (keys ind) \<inter> {} = {}" "set (keys ind) \<subseteq> ?P"
    using assms(3) by (simp_all add: keys_def)
  from spread_keys_inv [OF assms(1) i0 ks, of ?opts] obtain st' where
    r: "spread_keys chunkSize ?opts ind (keys ind) (0, [], [], id_counter) = Some (Inr st')"
    and inv: "spread_inv chunkSize ind (set (keys ind)) st'"
    by auto
  obtain sz m res c where st: "st' = (sz, m, res, c)" by (cases st') auto
  have P: "set (keys ind) = ?P" by (simp add: keys_def)
  from inv have d: "distinct (map fst m)" and e: "entries_total m = sz" and le: "sz \<le> chunkSize"
    and sub: "fst ` set m \<subseteq> ?P"
    and post: "\<And>t. concat (map (\<lambda>s. posting s t) res) @ lookup m t = (if t \<in> ?P then lookup ind t else [])"
    and shards: "list_all (\<lambda>s. entry_count s \<le> chunkSize \<and> tokens_in s \<subseteq> ?P \<and> is_map s) res"
    unfolding st P by (simp_all add: spread_inv_def)
  have pidx: "\<And>t. posting idx t = lookup ind t" "tokens_in idx = ?P"
    using assms(2) by (simp_all add: posting_def tokens_in_def map_entries_def)
  have post': "\<And>t. concat (map (\<lambda>s. posting s t) res) @ lookup m t = posting idx t"
    using post pidx(1) lookup_absent [of _ ind] by auto
  show ?thesis
  proof (cases "sz = 0")
    case True
    have s: "spread chunkSize idx id_counter = Some (Inr (res, c))"
      using assms(2) r st True by (simp add: spread_def Let_def)
    have "\<And>t. lookup m t = []" using e True by (simp add: entries_total_zero)
    with post' have "\<forall>t. concat (map (\<lambda>s. posting s t) res) = posting idx t" by simp
    moreover have "list_all (\<lambda>s. entry_count s \<le> chunkSize \<and> entry_count s \<le> chunkSize * 10) res" "list_all is_map res"
      "\<Union> (set (map tokens_in res)) \<subseteq> tokens_in idx"
      using shards pidx(2) by (auto simp: list_all_iff)
    ultimately show ?thesis using s by blast
  next
    case False
    obtain shard c' where ds: "deserialize (MapObj m) (OptionsObj ?opts) c = (shard, c')"
      by (cases "deserialize (MapObj m) (OptionsObj ?opts) c") auto
    have s: "spread chunkSize idx id_counter = Some (Inr (res @ [shard], c'))"
      using assms(2) r st False ds by (simp add: spread_def Let_def)
    have "\<forall>t. concat (map (\<lambda>s. posting s t) (res @ [shard])) = posting idx t"
      using post' shard_facts(1) [OF ds] by simp
    moreover have "list_all (\<lambda>s. entry_count s \<le> chunkSize \<and> entry_count s \<le> chunkSize * 10) (res @ [shard])"
      using shards shard_facts(2) [OF ds] e le by (auto simp: list_all_iff)
    moreover have "list_all is_map (res @ [shard])"
      using shards shard_facts(4) [OF ds] d by (auto simp: list_all_iff)
    moreover have "\<Union> (set (map tokens_in (res @ [shard]))) \<subseteq> tokens_in idx"
      using shards shard_facts(3) [OF ds] sub pidx(2) by (auto simp: list_all_iff)
    ultimately show ?thesis using s by blast
  qed
qed

lemma spread_partitions_postings_example:
  "(1::nat) \<le> 2
   \<and> (\<exists>shards c. spread 2 index_abcdef 2 = Some (Inr (shards, c))
         \<and> (\<forall>t. concat (map (\<lambda>s. posting s t) shards) = posting index_abcdef t)
         \<and> list_all (\<lambda>s. entry_count s \<le> 2 \<and> entry_count s \<le> 2 * 10) shards
         \<and> list_all is_map shards
         \<and> \<Union> (set (map tokens_in shards)) \<subseteq> tokens_in index_abcdef)"
proof -
  have "map_entries index_abcdef
          = Some [(''abc'', [NumKey 1]), (''bcd'', [NumKey 1]), (''cde'', [NumKey 1]), (''def'', [NumKey 1])]"
    by code_simp
  then have i: "indices index_abcdef
          = MapObj [(''abc'', [NumKey 1]), (''bcd'', [NumKey 1]), (''cde'', [NumKey 1]), (''def'', [NumKey 1])]"
    by (rule map_entries_Some)
  have d: "distinct (map fst [(''abc'', [NumKey 1]), (''bcd'', [NumKey 1]), (''cde'', [NumKey 1]), (''def'', [NumKey 1])])"
    by simp
  have c: "(1::nat) \<le> 2"
    by simp
  from spread_partitions_postings [OF c i d, of 2] c show ?thesis
    by blast
qed

text \<open>
  C5. No shard of \<open>spread(chunkSize)\<close> should hold more than \<open>chunkSize * 10\<close> entries.
  The compiled build (src/unnamed/part_000), which has this cap, misses it: when the Map
  in the making is full, the next token starts a new Map with its whole posting list,
  however long. For the index with one entry under \<open>"abc"\<close> and eleven under \<open>"abd"\<close>,
  \<open>spread(1)\<close> of the build gives a shard of 1 entry and a shard of 11 entries, more than
  10; \<open>spread(1)\<close> of the source gives shards of at most 1 entry.
\<close>

theorem build_spread_exceeds_cap:
  "map_option (map (\<lambda>e. (fst e, length (snd e)))) (map_entries index_eleven)
     = Some [(''abc'', 1), (''abd'', 11)]
   \<and> (case lib_spread 1 index_eleven 2 of
         Some (Inr (shards, _)) \<Rightarrow> map entry_count shards = [1, 11]
       | _ \<Rightarrow> False)
   \<and> \<not> (11::nat) \<le> 1 * 10
   \<and> (case spread 1 index_eleven 2 of
         Some (Inr (shards, _)) \<Rightarrow> list_all (\<lambda>s. entry_count s \<le> 1) shards
       | _ \<Rightarrow> False)"
  by code_simp

text \<open>
  \<open>cursorAll\<close> of the compiled build differs from \<open>findAll\<close> too: it has one batch of at
  most 20 keys. Of 21 records under \<open>"abc"\<close>, \<open>findAll\<close> answers all and the only batch
  of \<open>cursorAll\<close> leaves the last one out.
\<close>

lemma build_cursorAll_one_batch:
  "fst (findAll index_21 shards_21 (One ''abc'') ''$eq'') = Inr (map NumKey [1..21])
   \<and> fst (lib_cursorAll index_21 shards_21 (One ''abc'') ''$eq'' [0]) = Inr [rev (map NumKey [1..20])]"
  by code_simp

text \<open>
  And a key that reaches the threshold with the first shard is put in its batch again with
  every later shard: over the three shards of \<open>spread(2)\<close> above, the only batch of the
  build holds the key 1 three times.
\<close>

lemma build_cursorAll_repeats_key:
  "fst (lib_cursorAll index_abcdef shards_abcdef (One ''abcdef'') ''$eq'' [0, 1, 2])
     = Inr [[NumKey 1, NumKey 1, NumKey 1]]"
  by code_simp

subsection \<open>Lazy loading\<close>

lemma load_indice_options:
  "options (snd (load_indice idx)) = (options idx)\<lparr>isLoaded := isLoaded (options (snd (load_indice idx)))\<rparr>"
  by (simp add: load_indice_def split: option.splits sum.splits)

lemma preFilter_state: "snd (preFilter tokens operator idx) = snd (load_indice idx)"
  by (simp add: preFilter_def split: prod.splits sum.splits)

lemma ngram_find_state: "snd (ngram_find v operator idx) = snd (load_indice idx)"
proof -
  obtain r idx' where p: "preFilter (case v of None \<Rightarrow> [] | Some x \<Rightarrow> tokens_of idx x) operator idx = (r, idx')"
    by (cases "preFilter (case v of None \<Rightarrow> [] | Some x \<Rightarrow> tokens_of idx x) operator idx") auto
  then have "idx' = snd (load_indice idx)"
    using preFilter_state [of "case v of None \<Rightarrow> [] | Some x \<Rightarrow> tokens_of idx x" operator idx] by simp
  with p show ?thesis
    by (cases r) (simp_all add: ngram_find_def Let_def)
qed

lemma preFilter_all_length: "length (snd (preFilter_all tokens operator shards)) = length shards"
  by (induction shards) (auto split: prod.splits)

lemma preFilter_all_states:
  "snd (preFilter_all tokens operator shards) = map (\<lambda>s. snd (load_indice s)) shards"
proof (induction shards)
  case Nil
  then show ?case by simp
next
  case (Cons s ss)
  obtain r s' where p: "preFilter tokens operator s = (r, s')"
    by (cases "preFilter tokens operator s") auto
  then have s': "s' = snd (load_indice s)"
    using preFilter_state [of tokens operator s] by simp
  obtain rs ss' where q: "preFilter_all tokens operator ss = (rs, ss')"
    by (cases "preFilter_all tokens operator ss") auto
  with Cons.IH have "ss' = map (\<lambda>s. snd (load_indice s)) ss" by simp
  with p q s' show ?case by simp
qed

lemma findAll_states: "snd (findAll self shards v operator) = map (\<lambda>s. snd (load_indice s)) shards"
proof -
  obtain rs ss' where q: "preFilter_all (tokens_of self v) operator shards = (rs, ss')"
    by (cases "preFilter_all (tokens_of self v) operator shards") auto
  then have "ss' = map (\<lambda>s. snd (load_indice s)) shards"
    using preFilter_all_states [of "tokens_of self v" operator shards] by simp
  with q show ?thesis
    by (cases "all_resolved rs") (simp_all add: findAll_def Let_def)
qed

lemma cursorAll_states: "snd (cursorAll self shards v operator order) = map (\<lambda>s. snd (load_indice s)) shards"
proof -
  obtain rs ss' where q: "preFilter_all (tokens_of self v) operator shards = (rs, ss')"
    by (cases "preFilter_all (tokens_of self v) operator shards") auto
  then have "ss' = map (\<lambda>s. snd (load_indice s)) shards"
    using preFilter_all_states [of "tokens_of self v" operator shards] by simp
  with q show ?thesis
    by (simp add: cursorAll_def Let_def)
qed

lemma add_options: "add k v idx = Inr idx' \<Longrightarrow> options idx' = options idx"
  by (auto simp: add_def Let_def split: jsany.splits if_splits)

lemma load_indice_unloadable:
  "\<not> isLoaded (options idx) \<Longrightarrow> load (options idx) = None \<Longrightarrow> load_indice idx = (Inl NotLoaded, idx)"
  by (simp add: load_indice_def)

lemma load_indice_resolved:
  "\<not> isLoaded (options idx) \<Longrightarrow> load (options idx) = Some f \<Longrightarrow> f (loadCalls idx) = Inr data
    \<Longrightarrow> load_indice idx = (Inr (), after_load idx data)"
  by (simp add: load_indice_def after_load_def)

lemma load_indice_rejected:
  "\<not> isLoaded (options idx) \<Longrightarrow> load (options idx) = Some f \<Longrightarrow> f (loadCalls idx) = Inl e
    \<Longrightarrow> load_indice idx = (Inl e, after_rejection idx)"
  by (simp add: load_indice_def after_rejection_def)

lemma load_indice_loaded: "isLoaded (options idx) \<Longrightarrow> load_indice idx = (Inr (), idx)"
  by (simp add: load_indice_def)

text \<open>
  C6, as the code has it. For an index that is not loaded: without a load function every
  query (\<open>preFilter\<close>, \<open>find\<close>) fails with the error of \<open>load\<close> and leaves the index
  as it is. With a load function that resolves, the first query invokes it once, the
  matching runs on the index as loaded, and a query made after that load has resolved does
  not invoke it again (the state it leaves is the state it found). With a load function
  that rejects, the query fails with that error, the index stays unloaded with its data
  untouched, and the next query invokes the load function again.
\<close>

theorem lazy_load_behaviour:
  assumes "\<not> isLoaded (options idx)"
  shows "(load (options idx) = None \<longrightarrow>
            preFilter tokens operator idx = (Inl NotLoaded, idx)
          \<and> ngram_find v operator idx = (Inl NotLoaded, idx))
       \<and> (load (options idx) = Some f \<and> f (loadCalls idx) = Inr data \<longrightarrow>
            preFilter tokens operator idx
              = (count_tokens (after_load idx data) operator tokens [], after_load idx data)
          \<and> snd (ngram_find v operator idx) = after_load idx data
          \<and> loadCalls (after_load idx data) = loadCalls idx + 1
          \<and> preFilter later_tokens operator (after_load idx data)
              = (count_tokens (after_load idx data) operator later_tokens [], after_load idx data)
          \<and> snd (ngram_find later_v operator (after_load idx data)) = after_load idx data)
       \<and> (load (options idx) = Some f \<and> f (loadCalls idx) = Inl e \<longrightarrow>
            preFilter tokens operator idx = (Inl e, after_rejection idx)
          \<and> ngram_find v operator idx = (Inl e, after_rejection idx)
          \<and> \<not> isLoaded (options (after_rejection idx))
          \<and> indices (after_rejection idx) = indices idx
          \<and> loadCalls (after_rejection idx) = loadCalls idx + 1
          \<and> loadCalls (snd (preFilter later_tokens operator (after_rejection idx))) = loadCalls idx + 2
          \<and> loadCalls (snd (ngram_find later_v operator (after_rejection idx))) = loadCalls idx + 2)"
proof (intro conjI impI)
  assume n: "load (options idx) = None"
  show "preFilter tokens operator idx = (Inl NotLoaded, idx)"
    by (simp add: preFilter_def load_indice_unloadable [OF assms n])
  then show "ngram_find v operator idx = (Inl NotLoaded, idx)"
    by (simp add: ngram_find_def Let_def preFilter_def load_indice_unloadable [OF assms n])
next
  assume s: "load (options idx) = Some f \<and> f (loadCalls idx) = Inr data"
  have l: "load_indice idx = (Inr (), after_load idx data)"
    using load_indice_resolved [OF assms] s by blast
  have l2: "load_indice (after_load idx data) = (Inr (), after_load idx data)"
    by (rule load_indice_loaded) (simp add: after_load_def)
  show "preFilter tokens operator idx
          = (count_tokens (after_load idx data) operator tokens [], after_load idx data)"
    by (simp add: preFilter_def l)
  show "snd (ngram_find v operator idx) = after_load idx data"
    by (simp add: ngram_find_state l)
  show "loadCalls (after_load idx data) = loadCalls idx + 1"
    by (simp add: after_load_def)
  show "preFilter later_tokens operator (after_load idx data)
          = (count_tokens (after_load idx data) operator later_tokens [], after_load idx data)"
    by (simp add: preFilter_def l2)
  show "snd (ngram_find later_v operator (after_load idx data)) = after_load idx data"
    by (simp add: ngram_find_state l2)
next
  assume s: "load (options idx) = Some f \<and> f (loadCalls idx) = Inl e"
  have l: "load_indice idx = (Inl e, after_rejection idx)"
    using load_indice_rejected [OF assms] s by blast
  have c: "loadCalls (snd (load_indice (after_rejection idx))) = loadCalls idx + 2"
    using assms s by (auto simp: load_indice_def after_rejection_def split: sum.splits)
  show "preFilter tokens operator idx = (Inl e, after_rejection idx)"
    by (simp add: preFilter_def l)
  show "ngram_find v operator idx = (Inl e, after_rejection idx)"
    by (simp add: ngram_find_def Let_def preFilter_def l)
  show "\<not> isLoaded (options (after_rejection idx))"
    using assms by (simp add: after_rejection_def)
  show "indices (after_rejection idx) = indices idx"
    by (simp add: after_rejection_def)
  show "loadCalls (after_rejection idx) = loadCalls idx + 1"
    by (simp add: after_rejection_def)
  show "loadCalls (snd (preFilter later_tokens operator (after_rejection idx))) = loadCalls idx + 2"
    using c by (simp add: preFilter_state)
  show "loadCalls (snd (ngram_find later_v operator (after_rejection idx))) = loadCalls idx + 2"
    using c by (simp add: ngram_find_state)
qed

theorem lazy_load_behaviour_witness:
  "preFilter [''abc''] ''$eq'' unloadable_index = (Inl NotLoaded, unloadable_index)
   \<and> snd (ngram_find (Some (One ''abc'')) ''$eq'' lazy_index) = after_load lazy_index abc_entries
   \<and> fst (ngram_find (Some (One ''abc'')) ''$eq'' lazy_index) = Inr [NumKey 1]
   \<and> loadCalls (snd (ngram_find (Some (One ''abc'')) ''$eq'' lazy_index)) = 1
   \<and> ngram_find (Some (One ''abc'')) ''$eq'' flaky_index = (Inl (Rejected ''offline''), after_rejection flaky_index)
   \<and> fst (ngram_find (Some (One ''abc'')) ''$eq'' (after_rejection flaky_index)) = Inr [NumKey 1]
   \<and> loadCalls (snd (ngram_find (Some (One ''abc'')) ''$eq'' (after_rejection flaky_index))) = 2"
proof -
  have u: "\<not> isLoaded (options unloadable_index)" by code_simp
  have un: "load (options unloadable_index) = None"
    by (simp add: unloadable_index_def new_NgramIndice_def no_options_def)
  have l: "\<not> isLoaded (options lazy_index)" by code_simp
  have ln: "load (options lazy_index) = Some (\<lambda>n. Inr abc_entries) \<and> (\<lambda>n. Inr abc_entries) (loadCalls lazy_index) = Inr abc_entries"
    by (simp add: lazy_index_def new_NgramIndice_def no_options_def)
  have f: "\<not> isLoaded (options flaky_index)" by code_simp
  have fn: "load (options flaky_index) = Some (\<lambda>n. if n = 0 then Inl (Rejected ''offline'') else Inr abc_entries)
      \<and> (\<lambda>n. if n = 0 then Inl (Rejected ''offline'') else Inr abc_entries) (loadCalls flaky_index) = Inl (Rejected ''offline'')"
    by (simp add: flaky_index_def new_NgramIndice_def no_options_def)
  have e: "fst (ngram_find (Some (One ''abc'')) ''$eq'' lazy_index) = Inr [NumKey 1]
     \<and> loadCalls (snd (ngram_find (Some (One ''abc'')) ''$eq'' lazy_index)) = 1
     \<and> fst (ngram_find (Some (One ''abc'')) ''$eq'' (after_rejection flaky_index)) = Inr [NumKey 1]
     \<and> loadCalls (snd (ngram_find (Some (One ''abc'')) ''$eq'' (after_rejection flaky_index))) = 2"
    by code_simp
  have a: "preFilter [''abc''] ''$eq'' unloadable_index = (Inl NotLoaded, unloadable_index)"
    using lazy_load_behaviour [OF u, where tokens = "[''abc'']" and operator = "''$eq''" and v = None
        and f = "\<lambda>n. Inr []" and data = "[]" and later_tokens = "[]" and later_v = None and e = NotLoaded] un
    by blast
  have b: "snd (ngram_find (Some (One ''abc'')) ''$eq'' lazy_index) = after_load lazy_index abc_entries"
    using lazy_load_behaviour [OF l, where tokens = "[''abc'']" and operator = "''$eq''"
        and v = "Some (One ''abc'')" and f = "\<lambda>n. Inr abc_entries" and data = abc_entries
        and later_tokens = "[]" and later_v = None and e = NotLoaded] ln
    by blast
  have c: "ngram_find (Some (One ''abc'')) ''$eq'' flaky_index
             = (Inl (Rejected ''offline''), after_rejection flaky_index)"
    using lazy_load_behaviour [OF f, where tokens = "[''abc'']" and operator = "''$eq''"
        and v = "Some (One ''abc'')"
        and f = "\<lambda>n. if n = 0 then Inl (Rejected ''offline'') else Inr abc_entries"
        and data = "[]" and later_tokens = "[]" and later_v = None and e = "Rejected ''offline''"] fn
    by blast
  show ?thesis
    using a b c e by blast
qed

text \<open>
  C6, as the claim states it, fails: \<open>load\<close> sets \<open>isLoaded\<close> only when the promise
  of the load function has settled and keeps no trace of a load under way, so a second
  query made before that invokes the load function again. Of two calls of \<open>preFilter\<close>
  made together on a lazily loaded index both get the answer and the load function has
  been invoked twice; made one after the other, once.
\<close>

theorem overlapping_queries_load_twice:
  "\<not> isLoaded (options lazy_index) \<and> loadCalls lazy_index = 0
   \<and> fst (overlapped_preFilters [''abc''] [''abc''] ''$eq'' lazy_index)
       = (Inr [(NumKey 1, 1)], Inr [(NumKey 1, 1)])
   \<and> loadCalls (snd (overlapped_preFilters [''abc''] [''abc''] ''$eq'' lazy_index)) = 2
   \<and> loadCalls (snd (preFilter [''abc''] ''$eq'' (snd (preFilter [''abc''] ''$eq'' lazy_index)))) = 1"
  by code_simp

text \<open>
  C9, as the code has it. No operation that changes an index (\<open>add\<close>, the internal
  \<open>load\<close>, \<open>preFilter\<close>, \<open>find\<close>, and \<open>findAll\<close> and \<open>cursorAll\<close> on the shards they
  ask) changes a field of its options other than \<open>isLoaded\<close>; \<open>postFilter\<close>, \<open>spread\<close>
  and \<open>serialize\<close> only read the index.
\<close>

theorem options_change_only_isLoaded:
  "(case add k v idx of Inl e \<Rightarrow> True | Inr idx' \<Rightarrow> options idx' = options idx)
   \<and> options (snd (load_indice idx)) = (options idx)\<lparr>isLoaded := isLoaded (options (snd (load_indice idx)))\<rparr>
   \<and> options (snd (preFilter tokens operator idx)) = (options idx)\<lparr>isLoaded := isLoaded (options (snd (preFilter tokens operator idx)))\<rparr>
   \<and> options (snd (ngram_find vo operator idx)) = (options idx)\<lparr>isLoaded := isLoaded (options (snd (ngram_find vo operator idx)))\<rparr>
   \<and> list_all2 (\<lambda>s s'. options s' = (options s)\<lparr>isLoaded := isLoaded (options s')\<rparr>)
        shards (snd (findAll self shards v operator))
   \<and> list_all2 (\<lambda>s s'. options s' = (options s)\<lparr>isLoaded := isLoaded (options s')\<rparr>)
        shards (snd (cursorAll self shards v operator order))"
proof -
  have a: "case add k v idx of Inl e \<Rightarrow> True | Inr idx' \<Rightarrow> options idx' = options idx"
    by (auto split: sum.splits dest: add_options)
  have l: "list_all2 (\<lambda>s s'. options s' = (options s)\<lparr>isLoaded := isLoaded (options s')\<rparr>)
             shards (map (\<lambda>s. snd (load_indice s)) shards)"
    unfolding list_all2_map2 list_all2_same using load_indice_options by blast
  have o: "options (snd (load_indice idx)) = (options idx)\<lparr>isLoaded := isLoaded (options (snd (load_indice idx)))\<rparr>"
    by (rule load_indice_options)
  show ?thesis
    unfolding preFilter_state ngram_find_state findAll_states cursorAll_states
    using a l o by blast
qed

text \<open>
  C9, as the claim states it, fails: the first query of a lazily loaded index sets the
  field \<open>isLoaded\<close> of its options.
\<close>

theorem load_sets_isLoaded:
  "\<not> isLoaded (options lazy_index)
   \<and> isLoaded (options (snd (ngram_find (Some (One ''abc'')) ''$eq'' lazy_index)))
   \<and> fst (ngram_find (Some (One ''abc'')) ''$eq'' lazy_index) = Inr [NumKey 1]"
  by code_simp

end
